theory Spec2Isabelle
  imports Main "HOL-Library.Sublist"
begin

section \<open>The notebook \<open>sagemaker.ipynb\<close> as a sequence of calls into an external SDK\<close>

text \<open>
  The repository is one Jupyter notebook of six code cells (cells 0, 2, 3, 5, 7 and 9 of
  ten; the others are markdown headings). Its code imports six names and makes eight calls
  into the SageMaker SDK and the MXNet dataset loader. Nothing of those libraries is part
  of the repository, so they are a parameter of the model: an environment that answers
  every import and every call either with a value or with an exception of its own. The
  theorems hold for every environment and every state it starts in.
\<close>

subsection \<open>Values\<close>

text \<open>
  Python values as far as the notebook writes or passes them: the literals of its source
  (integers, the decimal literals \<open>0.1\<close> and \<open>0.9\<close>, strings, booleans, one dictionary
  display with string keys) and the objects the libraries return, which are opaque.
  \<open>PFloat m e\<close> is the float literal written \<open>m\<close> times ten to the power \<open>e\<close>: the
  notebook does no arithmetic on it.
\<close>

datatype pyval =
    PNone
  | PBool bool
  | PInt int
  | PFloat int int
  | PStr string
  | PDict "(string \<times> pyval) list"
  | PObj nat

text \<open>
  A dictionary display \<open>{k1: v1, ..., kn: vn}\<close> stores its items from left to right; a key
  written twice keeps its first position and its last value.
\<close>

fun dict_store :: "string \<Rightarrow> pyval \<Rightarrow> (string \<times> pyval) list \<Rightarrow> (string \<times> pyval) list" where
  "dict_store k v [] = [(k, v)]"
| "dict_store k v ((k', v') # d) = (if k = k' then (k, v) # d else (k', v') # dict_store k v d)"

definition dict_display :: "(string \<times> pyval) list \<Rightarrow> pyval" where
  "dict_display items = PDict (foldl (\<lambda>d (k, v). dict_store k v d) [] items)"

subsection \<open>Operations on the environment, events, state\<close>

text \<open>
  A call records the name its callee expression starts from, the value bound to that name,
  the attribute path from it to the callable, the positional arguments and the keyword
  arguments in source order: \<open>sagemaker.Session()\<close> is the call with target
  \<open>sagemaker\<close> and path \<open>[Session]\<close>, \<open>model.fit(inputs)\<close> the call with target
  \<open>model\<close>, the estimator as base, and path \<open>[fit]\<close>.
\<close>

record call =
  target :: string
  base :: pyval
  attrs :: "string list"
  args :: "pyval list"
  kwargs :: "(string \<times> pyval) list"

datatype op =
    Import string
  | ImportFrom string string
  | Call call

text \<open>
  An event is one operation performed, with the line of \<open>sagemaker.ipynb\<close> it is
  written on and the answer of the environment: \<open>Inl\<close> an exception, \<open>Inr\<close> a value.
\<close>

record 'e event =
  line :: nat
  op :: op
  outcome :: "'e + pyval"

text \<open>
  The environment is everything outside the notebook: the installed libraries, the
  credentials, the network, the cloud services. It has a state of its own, of any type
  \<open>'w\<close>, and answers an operation in a state with an outcome and a next state.
\<close>

type_synonym ('e, 'w) env = "op \<Rightarrow> 'w \<Rightarrow> ('e + pyval) \<times> 'w"

text \<open>
  The state of a run: the kernel's global namespace, shared by the cells, the indices of
  the cells run so far, the events so far, and the state of the environment.
\<close>

record ('e, 'w) state =
  globals :: "string \<rightharpoonup> pyval"
  executed :: "nat list"
  trace :: "'e event list"
  world :: 'w

text \<open>
  An exception is either raised by the environment or is the \<open>NameError\<close> of reading a name
  that is not bound.
\<close>

datatype 'e exn = NameError string | Raised 'e

type_synonym ('e, 'w, 'a) py =
  "('e, 'w) env \<Rightarrow> ('e, 'w) state \<Rightarrow> ('e exn + 'a) \<times> ('e, 'w) state"

definition return_py :: "'a \<Rightarrow> ('e, 'w, 'a) py" where
  "return_py x env s = (Inr x, s)"

definition bind_py :: "('e, 'w, 'a) py \<Rightarrow> ('a \<Rightarrow> ('e, 'w, 'b) py) \<Rightarrow> ('e, 'w, 'b) py" where
  "bind_py m f env s =
     (case m env s of
        (Inl e, s') \<Rightarrow> (Inl e, s')
      | (Inr x, s') \<Rightarrow> f x env s')"

definition load_name :: "string \<Rightarrow> ('e, 'w, pyval) py" where
  "load_name x env s =
     (case globals s x of
        None \<Rightarrow> (Inl (NameError x), s)
      | Some v \<Rightarrow> (Inr v, s))"

definition store_name :: "string \<Rightarrow> pyval \<Rightarrow> ('e, 'w, unit) py" where
  "store_name x v env s = (Inr (), s\<lparr>globals := (globals s)(x \<mapsto> v)\<rparr>)"

definition perform :: "nat \<Rightarrow> op \<Rightarrow> ('e, 'w, pyval) py" where
  "perform l c env s =
     (case env c (world s) of
        (r, w) \<Rightarrow>
          (let s' = s\<lparr>trace := trace s @ [\<lparr>line = l, op = c, outcome = r\<rparr>], world := w\<rparr>
           in case r of
                Inl e \<Rightarrow> (Inl (Raised e), s')
              | Inr v \<Rightarrow> (Inr v, s')))"

subsection \<open>Statements\<close>

text \<open>
  The statements the notebook is written with: \<open>import m\<close>, \<open>from m import x\<close>, an
  assignment to a name, and an expression statement, whose value is dropped (that the
  front end shows the value of the last expression of a cell is not in the code). A cell is
  a block of statements; a statement that raises ends it.
\<close>

definition import_stmt :: "nat \<Rightarrow> string \<Rightarrow> ('e, 'w, unit) py" where
  "import_stmt l m = bind_py (perform l (Import m)) (store_name m)"

definition from_import_stmt :: "nat \<Rightarrow> string \<Rightarrow> string \<Rightarrow> ('e, 'w, unit) py" where
  "from_import_stmt l m x = bind_py (perform l (ImportFrom m x)) (store_name x)"

definition assign :: "string \<Rightarrow> ('e, 'w, pyval) py \<Rightarrow> ('e, 'w, unit) py" where
  "assign x e = bind_py e (store_name x)"

definition expr_stmt :: "('e, 'w, pyval) py \<Rightarrow> ('e, 'w, unit) py" where
  "expr_stmt e = bind_py e (\<lambda>_. return_py ())"

fun block :: "('e, 'w, unit) py list \<Rightarrow> ('e, 'w, unit) py" where
  "block [] = return_py ()"
| "block (st # sts) = bind_py st (\<lambda>_. block sts)"

subsection \<open>The cells\<close>

text \<open>
  Cell 0, lines 11 to 21:
  \<^verbatim>\<open>
  import os
  import boto3
  import sagemaker
  from sagemaker.mxnet import MXNet
  from sagemaker import get_execution_role
  from mxnet import gluon
  sagemaker_session = sagemaker.Session()
  role = get_execution_role()
  \<close>
\<close>

definition cell0 :: "('e, 'w, unit) py" where
  "cell0 env s = block
     [import_stmt 11 ''os'',
      import_stmt 13 ''boto3'',
      import_stmt 14 ''sagemaker'',
      from_import_stmt 15 ''sagemaker.mxnet'' ''MXNet'',
      from_import_stmt 16 ''sagemaker'' ''get_execution_role'',
      from_import_stmt 17 ''mxnet'' ''gluon'',
      assign ''sagemaker_session''
        (bind_py (load_name ''sagemaker'') (\<lambda>f.
         perform 19 (Call \<lparr>target = ''sagemaker'', base = f, attrs = [''Session''],
                           args = [], kwargs = []\<rparr>))),
      assign ''role''
        (bind_py (load_name ''get_execution_role'') (\<lambda>f.
         perform 21 (Call \<lparr>target = ''get_execution_role'', base = f, attrs = [],
                           args = [], kwargs = []\<rparr>)))] env s"

text \<open>
  Cell 2, lines 39 and 40:
  \<^verbatim>\<open>
  gluon.data.vision.MNIST('./data/train', train=True)
  gluon.data.vision.MNIST('./data/test', train=False)
  \<close>
\<close>

definition cell2 :: "('e, 'w, unit) py" where
  "cell2 env s = block
     [expr_stmt
        (bind_py (load_name ''gluon'') (\<lambda>f.
         perform 39 (Call \<lparr>target = ''gluon'', base = f,
                           attrs = [''data'', ''vision'', ''MNIST''],
                           args = [PStr ''./data/train''],
                           kwargs = [(''train'', PBool True)]\<rparr>))),
      expr_stmt
        (bind_py (load_name ''gluon'') (\<lambda>f.
         perform 40 (Call \<lparr>target = ''gluon'', base = f,
                           attrs = [''data'', ''vision'', ''MNIST''],
                           args = [PStr ''./data/test''],
                           kwargs = [(''train'', PBool False)]\<rparr>)))] env s"

text \<open>
  Cell 3, line 51:
  \<^verbatim>\<open>
  inputs = sagemaker_session.upload_data(path='data', key_prefix='data/DEMO-mnist')
  \<close>
\<close>

definition cell3 :: "('e, 'w, unit) py" where
  "cell3 env s = block
     [assign ''inputs''
        (bind_py (load_name ''sagemaker_session'') (\<lambda>f.
         perform 51 (Call \<lparr>target = ''sagemaker_session'', base = f,
                           attrs = [''upload_data''],
                           args = [],
                           kwargs = [(''path'', PStr ''data''),
                                     (''key_prefix'', PStr ''data/DEMO-mnist'')]\<rparr>)))] env s"

text \<open>
  Cell 5, lines 69 to 79:
  \<^verbatim>\<open>
  model = MXNet("entry.py",
                role=role,
                train_instance_count=1,
                train_instance_type="ml.c4.xlarge",
                hyperparameters={
                                  'batch_size': 100,
                                  'epochs': 5,
                                  'learning_rate': 0.1,
                                  'momentum': 0.9,
                                  'log_interval': 100
                                  })
  \<close>
\<close>

definition hyperparameters :: pyval where
  "hyperparameters = dict_display
     [(''batch_size'', PInt 100),
      (''epochs'', PInt 5),
      (''learning_rate'', PFloat 1 (- 1)),
      (''momentum'', PFloat 9 (- 1)),
      (''log_interval'', PInt 100)]"

definition cell5 :: "('e, 'w, unit) py" where
  "cell5 env s = block
     [assign ''model''
        (bind_py (load_name ''MXNet'') (\<lambda>f.
         bind_py (load_name ''role'') (\<lambda>r.
         perform 69 (Call \<lparr>target = ''MXNet'', base = f, attrs = [],
                           args = [PStr ''entry.py''],
                           kwargs = [(''role'', r),
                                     (''train_instance_count'', PInt 1),
                                     (''train_instance_type'', PStr ''ml.c4.xlarge''),
                                     (''hyperparameters'', hyperparameters)]\<rparr>))))] env s"

text \<open>
  Cell 7, line 97:
  \<^verbatim>\<open>
  model.fit(inputs)
  \<close>
\<close>

definition cell7 :: "('e, 'w, unit) py" where
  "cell7 env s = block
     [expr_stmt
        (bind_py (load_name ''model'') (\<lambda>f.
         bind_py (load_name ''inputs'') (\<lambda>x.
         perform 97 (Call \<lparr>target = ''model'', base = f, attrs = [''fit''],
                           args = [x], kwargs = []\<rparr>))))] env s"

text \<open>
  Cell 9, line 115:
  \<^verbatim>\<open>
  model.deploy(initial_instance_count=1, instance_type='ml.m4.xlarge')
  \<close>
\<close>

definition cell9 :: "('e, 'w, unit) py" where
  "cell9 env s = block
     [expr_stmt
        (bind_py (load_name ''model'') (\<lambda>f.
         perform 115 (Call \<lparr>target = ''model'', base = f, attrs = [''deploy''],
                            args = [],
                            kwargs = [(''initial_instance_count'', PInt 1),
                                      (''instance_type'', PStr ''ml.m4.xlarge'')]\<rparr>)))] env s"

subsection \<open>Running the notebook\<close>

text \<open>
  A run of the notebook is what running all its cells does: the code cells run from top to
  bottom in a fresh kernel, from any state of the environment. Running a cell records its
  index; a cell that raises ends the run, and the exception is the run's result.
\<close>

definition run_cell :: "nat \<Rightarrow> ('e, 'w, unit) py \<Rightarrow> ('e, 'w, unit) py" where
  "run_cell i body env s = body env (s\<lparr>executed := executed s @ [i]\<rparr>)"

fun run_cells :: "(nat \<times> ('e, 'w, unit) py) list \<Rightarrow> ('e, 'w, unit) py" where
  "run_cells [] env s = (Inr (), s)"
| "run_cells ((i, body) # cs) env s =
     (case run_cell i body env s of
        (Inl e, s') \<Rightarrow> (Inl e, s')
      | (Inr _, s') \<Rightarrow> run_cells cs env s')"

definition fresh_kernel :: "'w \<Rightarrow> ('e, 'w) state" where
  "fresh_kernel w = \<lparr>globals = Map.empty, executed = [], trace = [], world = w\<rparr>"

definition run_notebook :: "('e, 'w) env \<Rightarrow> 'w \<Rightarrow> ('e exn + unit) \<times> ('e, 'w) state" where
  "run_notebook env w =
     run_cells [(0, cell0), (2, cell2), (3, cell3), (5, cell5), (7, cell7), (9, cell9)]
       env (fresh_kernel w)"

section \<open>The notebook as a list of instructions\<close>

text \<open>
  Every statement of the notebook has one shape: read some names, perform one operation
  built from their values, and bind the answer to a name or drop it. An instruction is that
  shape as data: the line, the operation as a function of the namespace (\<open>Inl\<close> the first
  name that is read and not bound), and the name bound. The cells are proved equal to the
  runs of their instruction lists below, so that the properties of a run are proved once,
  by induction on instruction lists.
\<close>

record instr =
  iline :: nat
  build :: "(string \<rightharpoonup> pyval) \<Rightarrow> string + op"
  binds :: "string option"

definition exec_instr :: "instr \<Rightarrow> ('e, 'w, unit) py" where
  "exec_instr i =
     bind_py
       (\<lambda>env s. case build i (globals s) of
                   Inl x \<Rightarrow> (Inl (NameError x), s)
                 | Inr c \<Rightarrow> perform (iline i) c env s)
       (\<lambda>v. case binds i of None \<Rightarrow> return_py () | Some x \<Rightarrow> store_name x v)"

fun run_instrs :: "instr list \<Rightarrow> ('e, 'w, unit) py" where
  "run_instrs [] env s = (Inr (), s)"
| "run_instrs (i # is) env s =
     (case exec_instr i env s of
        (Inl e, s') \<Rightarrow> (Inl e, s')
      | (Inr _, s') \<Rightarrow> run_instrs is env s')"

fun run_prog :: "(nat \<times> instr list) list \<Rightarrow> ('e, 'w, unit) py" where
  "run_prog [] env s = (Inr (), s)"
| "run_prog ((n, is) # cs) env s =
     (case run_instrs is env (s\<lparr>executed := executed s @ [n]\<rparr>) of
        (Inl e, s') \<Rightarrow> (Inl e, s')
      | (Inr _, s') \<Rightarrow> run_prog cs env s')"

definition read1 :: "string \<Rightarrow> (pyval \<Rightarrow> op) \<Rightarrow> (string \<rightharpoonup> pyval) \<Rightarrow> string + op" where
  "read1 x f g = (case g x of None \<Rightarrow> Inl x | Some v \<Rightarrow> Inr (f v))"

definition read2 ::
  "string \<Rightarrow> string \<Rightarrow> (pyval \<Rightarrow> pyval \<Rightarrow> op) \<Rightarrow> (string \<rightharpoonup> pyval) \<Rightarrow> string + op" where
  "read2 x y f g =
     (case g x of
        None \<Rightarrow> Inl x
      | Some v \<Rightarrow> (case g y of None \<Rightarrow> Inl y | Some u \<Rightarrow> Inr (f v u)))"

definition cell0_instrs :: "instr list" where
  "cell0_instrs =
     [\<lparr>iline = 11, build = (\<lambda>g. Inr (Import ''os'')), binds = Some ''os''\<rparr>,
      \<lparr>iline = 13, build = (\<lambda>g. Inr (Import ''boto3'')), binds = Some ''boto3''\<rparr>,
      \<lparr>iline = 14, build = (\<lambda>g. Inr (Import ''sagemaker'')), binds = Some ''sagemaker''\<rparr>,
      \<lparr>iline = 15, build = (\<lambda>g. Inr (ImportFrom ''sagemaker.mxnet'' ''MXNet'')),
        binds = Some ''MXNet''\<rparr>,
      \<lparr>iline = 16, build = (\<lambda>g. Inr (ImportFrom ''sagemaker'' ''get_execution_role'')),
        binds = Some ''get_execution_role''\<rparr>,
      \<lparr>iline = 17, build = (\<lambda>g. Inr (ImportFrom ''mxnet'' ''gluon'')),
        binds = Some ''gluon''\<rparr>,
      \<lparr>iline = 19,
        build = read1 ''sagemaker'' (\<lambda>f.
          Call \<lparr>target = ''sagemaker'', base = f, attrs = [''Session''],
                args = [], kwargs = []\<rparr>),
        binds = Some ''sagemaker_session''\<rparr>,
      \<lparr>iline = 21,
        build = read1 ''get_execution_role'' (\<lambda>f.
          Call \<lparr>target = ''get_execution_role'', base = f, attrs = [],
                args = [], kwargs = []\<rparr>),
        binds = Some ''role''\<rparr>]"

definition cell2_instrs :: "instr list" where
  "cell2_instrs =
     [\<lparr>iline = 39,
        build = read1 ''gluon'' (\<lambda>f.
          Call \<lparr>target = ''gluon'', base = f, attrs = [''data'', ''vision'', ''MNIST''],
                args = [PStr ''./data/train''], kwargs = [(''train'', PBool True)]\<rparr>),
        binds = None\<rparr>,
      \<lparr>iline = 40,
        build = read1 ''gluon'' (\<lambda>f.
          Call \<lparr>target = ''gluon'', base = f, attrs = [''data'', ''vision'', ''MNIST''],
                args = [PStr ''./data/test''], kwargs = [(''train'', PBool False)]\<rparr>),
        binds = None\<rparr>]"

definition cell3_instrs :: "instr list" where
  "cell3_instrs =
     [\<lparr>iline = 51,
        build = read1 ''sagemaker_session'' (\<lambda>f.
          Call \<lparr>target = ''sagemaker_session'', base = f, attrs = [''upload_data''],
                args = [],
                kwargs = [(''path'', PStr ''data''),
                          (''key_prefix'', PStr ''data/DEMO-mnist'')]\<rparr>),
        binds = Some ''inputs''\<rparr>]"

definition cell5_instrs :: "instr list" where
  "cell5_instrs =
     [\<lparr>iline = 69,
        build = read2 ''MXNet'' ''role'' (\<lambda>f r.
          Call \<lparr>target = ''MXNet'', base = f, attrs = [],
                args = [PStr ''entry.py''],
                kwargs = [(''role'', r),
                          (''train_instance_count'', PInt 1),
                          (''train_instance_type'', PStr ''ml.c4.xlarge''),
                          (''hyperparameters'', hyperparameters)]\<rparr>),
        binds = Some ''model''\<rparr>]"

definition cell7_instrs :: "instr list" where
  "cell7_instrs =
     [\<lparr>iline = 97,
        build = read2 ''model'' ''inputs'' (\<lambda>f x.
          Call \<lparr>target = ''model'', base = f, attrs = [''fit''],
                args = [x], kwargs = []\<rparr>),
        binds = None\<rparr>]"

definition cell9_instrs :: "instr list" where
  "cell9_instrs =
     [\<lparr>iline = 115,
        build = read1 ''model'' (\<lambda>f.
          Call \<lparr>target = ''model'', base = f, attrs = [''deploy''],
                args = [],
                kwargs = [(''initial_instance_count'', PInt 1),
                          (''instance_type'', PStr ''ml.m4.xlarge'')]\<rparr>),
        binds = None\<rparr>]"

definition notebook_cells :: "(nat \<times> instr list) list" where
  "notebook_cells =
     [(0, cell0_instrs), (2, cell2_instrs), (3, cell3_instrs),
      (5, cell5_instrs), (7, cell7_instrs), (9, cell9_instrs)]"

subsection \<open>The invariant of a run\<close>

text \<open>
  \<open>namespace P tr\<close> is the namespace that the events \<open>tr\<close> leave behind: every event
  that returned a value binds it to the name its line binds in the program \<open>P\<close>. A trace
  follows \<open>P\<close> when its \<open>k\<close>-th event is the \<open>k\<close>-th instruction of \<open>P\<close>, built in the
  namespace of the events before it.
\<close>

definition notebook_instrs :: "instr list" where
  "notebook_instrs = concat (map snd notebook_cells)"

definition returned :: "'e event \<Rightarrow> bool" where
  "returned ev = (\<not> isl (outcome ev))"

definition name_bound_at :: "instr list \<Rightarrow> nat \<Rightarrow> string option" where
  "name_bound_at P l = (case find (\<lambda>i. iline i = l) P of None \<Rightarrow> None | Some i \<Rightarrow> binds i)"

definition bind_event ::
  "instr list \<Rightarrow> (string \<rightharpoonup> pyval) \<Rightarrow> 'e event \<Rightarrow> (string \<rightharpoonup> pyval)" where
  "bind_event P g u =
     (case outcome u of
        Inl _ \<Rightarrow> g
      | Inr v \<Rightarrow> (case name_bound_at P (line u) of None \<Rightarrow> g | Some x \<Rightarrow> g(x \<mapsto> v)))"

definition namespace :: "instr list \<Rightarrow> 'e event list \<Rightarrow> (string \<rightharpoonup> pyval)" where
  "namespace P tr = foldl (bind_event P) Map.empty tr"

definition follows :: "instr list \<Rightarrow> 'e event list \<Rightarrow> bool" where
  "follows P tr \<longleftrightarrow>
     length tr \<le> length P \<and>
     (\<forall>k<length tr. line (tr ! k) = iline (P ! k) \<and>
        build (P ! k) (namespace P (take k tr)) = Inr (op (tr ! k)))"

definition good :: "instr list \<Rightarrow> ('e, 'w) state \<Rightarrow> bool" where
  "good P s \<longleftrightarrow>
     follows P (trace s) \<and> list_all returned (trace s) \<and> globals s = namespace P (trace s)"

definition final :: "instr list \<Rightarrow> 'e exn + unit \<Rightarrow> ('e, 'w) state \<Rightarrow> bool" where
  "final P r s \<longleftrightarrow>
     follows P (trace s) \<and> list_all returned (butlast (trace s)) \<and>
     globals s = namespace P (trace s) \<and>
     (r = Inr () \<longrightarrow> list_all returned (trace s) \<and> length (trace s) = length P) \<and>
     (\<forall>e. r = Inl (Raised e) \<longrightarrow> trace s \<noteq> [] \<and> outcome (last (trace s)) = Inl e)"

fun reads_bound :: "string set \<Rightarrow> instr list \<Rightarrow> bool" where
  "reads_bound B [] = True"
| "reads_bound B (i # is) =
     ((\<forall>g. B \<subseteq> dom g \<longrightarrow> \<not> isl (build i g)) \<and> reads_bound (B \<union> set_option (binds i)) is)"

section \<open>Vocabulary of the properties\<close>

text \<open>
  The calls of a trace whose callee is written \<open>t.p\<close> in the source (target \<open>t\<close>,
  attribute path \<open>p\<close>), in the order they were made, and the values such calls returned.
\<close>

definition call_at :: "string \<Rightarrow> string list \<Rightarrow> 'e event \<Rightarrow> call option" where
  "call_at t p ev =
     (case op ev of
        Call c \<Rightarrow> if target c = t \<and> attrs c = p then Some c else None
      | _ \<Rightarrow> None)"

fun callee :: "op \<Rightarrow> (string \<times> string list) option" where
  "callee (Call c) = Some (target c, attrs c)"
| "callee (Import m) = None"
| "callee (ImportFrom m x) = None"

definition calls_of :: "string \<Rightarrow> string list \<Rightarrow> 'e event list \<Rightarrow> call list" where
  "calls_of t p tr = List.map_filter (call_at t p) tr"

definition result_at :: "string \<Rightarrow> string list \<Rightarrow> 'e event \<Rightarrow> pyval option" where
  "result_at t p ev =
     (case call_at t p ev of
        None \<Rightarrow> None
      | Some c \<Rightarrow> (case outcome ev of Inl _ \<Rightarrow> None | Inr v \<Rightarrow> Some v))"

definition results_of :: "string \<Rightarrow> string list \<Rightarrow> 'e event list \<Rightarrow> pyval list" where
  "results_of t p tr = List.map_filter (result_at t p) tr"

text \<open>
  The steps of the flow: acquiring the session and the execution role, fetching the
  dataset, uploading it, constructing the training-job descriptor, submitting the job,
  deploying the endpoint. A call is classified by its callee; an import is no step.
\<close>

datatype phase = Acquire | Fetch | Upload | Construct | Fit | Deploy

fun phase_of :: "op \<Rightarrow> phase option" where
  "phase_of (Call c) =
     (if target c = ''sagemaker'' \<and> attrs c = [''Session''] then Some Acquire
      else if target c = ''get_execution_role'' \<and> attrs c = [] then Some Acquire
      else if target c = ''gluon'' \<and> attrs c = [''data'', ''vision'', ''MNIST''] then Some Fetch
      else if target c = ''sagemaker_session'' \<and> attrs c = [''upload_data''] then Some Upload
      else if target c = ''MXNet'' \<and> attrs c = [] then Some Construct
      else if target c = ''model'' \<and> attrs c = [''fit''] then Some Fit
      else if target c = ''model'' \<and> attrs c = [''deploy''] then Some Deploy
      else None)"
| "phase_of (Import m) = None"
| "phase_of (ImportFrom m x) = None"

definition phases :: "'e event list \<Rightarrow> phase list" where
  "phases tr = List.map_filter (\<lambda>ev. phase_of (op ev)) tr"

text \<open>The scalars among the values: integers and floating-point numbers.\<close>

fun is_scalar :: "pyval \<Rightarrow> bool" where
  "is_scalar (PInt n) = True"
| "is_scalar (PFloat m e) = True"
| "is_scalar v = False"

text \<open>
  The code cell that a line of \<open>sagemaker.ipynb\<close> belongs to: the \<open>source\<close> arrays of
  the cells 0, 2, 3, 5, 7 and 9 are on the lines 11 to 21, 39 to 40, 51, 69 to 79, 97 and
  115.
\<close>

definition cell_of_line :: "nat \<Rightarrow> nat option" where
  "cell_of_line l =
     (if 11 \<le> l \<and> l \<le> 21 then Some 0
      else if 39 \<le> l \<and> l \<le> 40 then Some 2
      else if l = 51 then Some 3
      else if 69 \<le> l \<and> l \<le> 79 then Some 5
      else if l = 97 then Some 7
      else if l = 115 then Some 9
      else None)"

subsection \<open>Two environments to run the notebook in\<close>

text \<open>
  \<open>env_ok\<close> answers the \<open>n\<close>-th operation with a new object; \<open>env_quota\<close> does the
  same but raises on the thirteenth operation, the submission of the training job. The
  traces of the two runs are written out.
\<close>

definition env_ok :: "(string, nat) env" where
  "env_ok c n = (Inr (PObj n), Suc n)"

definition env_quota :: "(string, nat) env" where
  "env_quota c n = (if n = 12 then Inl ''ResourceLimitExceeded'' else Inr (PObj n), Suc n)"

definition trace_ok :: "string event list" where
  "trace_ok =
     [\<lparr>line = 11, op = Import ''os'', outcome = Inr (PObj 0)\<rparr>,
      \<lparr>line = 13, op = Import ''boto3'', outcome = Inr (PObj 1)\<rparr>,
      \<lparr>line = 14, op = Import ''sagemaker'', outcome = Inr (PObj 2)\<rparr>,
      \<lparr>line = 15, op = ImportFrom ''sagemaker.mxnet'' ''MXNet'', outcome = Inr (PObj 3)\<rparr>,
      \<lparr>line = 16, op = ImportFrom ''sagemaker'' ''get_execution_role'',
        outcome = Inr (PObj 4)\<rparr>,
      \<lparr>line = 17, op = ImportFrom ''mxnet'' ''gluon'', outcome = Inr (PObj 5)\<rparr>,
      \<lparr>line = 19,
        op = Call \<lparr>target = ''sagemaker'', base = PObj 2, attrs = [''Session''],
                   args = [], kwargs = []\<rparr>,
        outcome = Inr (PObj 6)\<rparr>,
      \<lparr>line = 21,
        op = Call \<lparr>target = ''get_execution_role'', base = PObj 4, attrs = [],
                   args = [], kwargs = []\<rparr>,
        outcome = Inr (PObj 7)\<rparr>,
      \<lparr>line = 39,
        op = Call \<lparr>target = ''gluon'', base = PObj 5,
                   attrs = [''data'', ''vision'', ''MNIST''],
                   args = [PStr ''./data/train''], kwargs = [(''train'', PBool True)]\<rparr>,
        outcome = Inr (PObj 8)\<rparr>,
      \<lparr>line = 40,
        op = Call \<lparr>target = ''gluon'', base = PObj 5,
                   attrs = [''data'', ''vision'', ''MNIST''],
                   args = [PStr ''./data/test''], kwargs = [(''train'', PBool False)]\<rparr>,
        outcome = Inr (PObj 9)\<rparr>,
      \<lparr>line = 51,
        op = Call \<lparr>target = ''sagemaker_session'', base = PObj 6,
                   attrs = [''upload_data''], args = [],
                   kwargs = [(''path'', PStr ''data''),
                             (''key_prefix'', PStr ''data/DEMO-mnist'')]\<rparr>,
        outcome = Inr (PObj 10)\<rparr>,
      \<lparr>line = 69,
        op = Call \<lparr>target = ''MXNet'', base = PObj 3, attrs = [],
                   args = [PStr ''entry.py''],
                   kwargs = [(''role'', PObj 7),
                             (''train_instance_count'', PInt 1),
                             (''train_instance_type'', PStr ''ml.c4.xlarge''),
                             (''hyperparameters'', hyperparameters)]\<rparr>,
        outcome = Inr (PObj 11)\<rparr>,
      \<lparr>line = 97,
        op = Call \<lparr>target = ''model'', base = PObj 11, attrs = [''fit''],
                   args = [PObj 10], kwargs = []\<rparr>,
        outcome = Inr (PObj 12)\<rparr>,
      \<lparr>line = 115,
        op = Call \<lparr>target = ''model'', base = PObj 11, attrs = [''deploy''],
                   args = [],
                   kwargs = [(''initial_instance_count'', PInt 1),
                             (''instance_type'', PStr ''ml.m4.xlarge'')]\<rparr>,
        outcome = Inr (PObj 13)\<rparr>]"

definition trace_quota :: "string event list" where
  "trace_quota =
     butlast (butlast trace_ok) @
     [\<lparr>line = 97,
        op = Call \<lparr>target = ''model'', base = PObj 11, attrs = [''fit''],
                   args = [PObj 10], kwargs = []\<rparr>,
        outcome = Inl ''ResourceLimitExceeded''\<rparr>]"

definition estimator_ok :: call where
  "estimator_ok =
     \<lparr>target = ''MXNet'', base = PObj 3, attrs = [],
      args = [PStr ''entry.py''],
      kwargs = [(''role'', PObj 7),
                (''train_instance_count'', PInt 1),
                (''train_instance_type'', PStr ''ml.c4.xlarge''),
                (''hyperparameters'', hyperparameters)]\<rparr>"

definition upload_ok :: call where
  "upload_ok =
     \<lparr>target = ''sagemaker_session'', base = PObj 6, attrs = [''upload_data''],
      args = [],
      kwargs = [(''path'', PStr ''data''), (''key_prefix'', PStr ''data/DEMO-mnist'')]\<rparr>"

definition fit_ok :: call where
  "fit_ok =
     \<lparr>target = ''model'', base = PObj 11, attrs = [''fit''],
      args = [PObj 10], kwargs = []\<rparr>"

definition deploy_ok :: call where
  "deploy_ok =
     \<lparr>target = ''model'', base = PObj 11, attrs = [''deploy''],
      args = [],
      kwargs = [(''initial_instance_count'', PInt 1),
                (''instance_type'', PStr ''ml.m4.xlarge'')]\<rparr>"

definition fit_quota :: "string event" where
  "fit_quota =
     \<lparr>line = 97,
      op = Call \<lparr>target = ''model'', base = PObj 11, attrs = [''fit''],
                 args = [PObj 10], kwargs = []\<rparr>,
      outcome = Inl ''ResourceLimitExceeded''\<rparr>"

definition fetch_train_ok :: call where
  "fetch_train_ok =
     \<lparr>target = ''gluon'', base = PObj 5, attrs = [''data'', ''vision'', ''MNIST''],
      args = [PStr ''./data/train''], kwargs = [(''train'', PBool True)]\<rparr>"

definition fetch_train_event :: "string event" where
  "fetch_train_event = \<lparr>line = 39, op = Call fetch_train_ok, outcome = Inr (PObj 8)\<rparr>"

section \<open>Lists\<close>

text \<open>
  Facts about lists: a list whose elements have distinct keys has at most one element with
  a given key, and selecting from an initial part of a list gives an initial part of the
  selection.
\<close>

lemma list_all_butlast: "list_all Q xs \<Longrightarrow> list_all Q (butlast xs)"
  by (induction xs) auto

lemma in_butlast_or_last: "x \<in> set xs \<Longrightarrow> x \<in> set (butlast xs) \<or> x = last xs"
  by (induction xs) auto

lemma sorted_wrt_take: "sorted_wrt R xs \<Longrightarrow> sorted_wrt R (take n xs)"
  by (metis append_take_drop_id sorted_wrt_append)

lemma filter_single:
  assumes "distinct (map f xs)" and "u \<in> set xs" and "Q u"
    and "\<And>x. x \<in> set xs \<Longrightarrow> Q x \<Longrightarrow> f x = f u"
  shows "filter Q xs = [u]"
  using assms
proof (induction xs)
  case Nil
  then show ?case by simp
next
  case (Cons a xs)
  have fresh: "f a \<notin> f ` set xs" and d: "distinct (map f xs)"
    using Cons.prems(1) by simp_all
  show ?case
  proof (cases "a = u")
    case True
    have "\<not> Q y" if "y \<in> set xs" for y
    proof
      assume "Q y"
      with that have "f y = f u" by (intro Cons.prems(4)) simp_all
      moreover from that have "f y \<in> f ` set xs" by (rule imageI)
      ultimately show False using fresh True by simp
    qed
    then have "filter Q xs = []" by (simp add: filter_empty_conv)
    with True Cons.prems(3) show ?thesis by simp
  next
    case False
    with Cons.prems(2) have u: "u \<in> set xs" by simp
    then have "f u \<in> f ` set xs" by (rule imageI)
    with fresh have "f a \<noteq> f u" by auto
    moreover have "Q a \<Longrightarrow> f a = f u" by (rule Cons.prems(4)) simp_all
    ultimately have "\<not> Q a" by blast
    moreover have "filter Q xs = [u]"
      by (rule Cons.IH [OF d u Cons.prems(3)]) (rule Cons.prems(4), simp_all)
    ultimately show ?thesis by simp
  qed
qed

lemma filter_at_most_one:
  assumes "distinct (map f xs)" and "\<And>x. x \<in> set xs \<Longrightarrow> Q x \<Longrightarrow> f x = l"
  shows "length (filter Q xs) \<le> 1"
proof (cases "filter Q xs")
  case Nil
  then show ?thesis by simp
next
  case (Cons u us)
  then have "u \<in> set (filter Q xs)" by simp
  then have u: "u \<in> set xs" "Q u" by simp_all
  then have "f u = l" by (rule assms(2))
  have "filter Q xs = [u]"
  proof (rule filter_single [of f xs u Q, OF assms(1) u])
    fix x assume "x \<in> set xs" "Q x"
    then have "f x = l" by (rule assms(2))
    with \<open>f u = l\<close> show "f x = f u" by simp
  qed
  then show ?thesis by simp
qed

lemma map_filter_single:
  assumes "distinct (map f xs)" and "u \<in> set xs" and "h u = Some v"
    and "\<And>x. x \<in> set xs \<Longrightarrow> h x \<noteq> None \<Longrightarrow> f x = f u"
  shows "List.map_filter h xs = [v]"
proof -
  have "h u \<noteq> None" using assms(3) by simp
  with assms(1,2) have "filter (\<lambda>x. h x \<noteq> None) xs = [u]"
    by (rule filter_single [of f xs u "\<lambda>x. h x \<noteq> None"]) (rule assms(4))
  with assms(3) show ?thesis by (simp add: map_filter_def)
qed

lemma map_filter_at_most_one:
  assumes "distinct (map f xs)" and "\<And>x. x \<in> set xs \<Longrightarrow> h x \<noteq> None \<Longrightarrow> f x = l"
  shows "length (List.map_filter h xs) \<le> 1"
proof -
  have "length (filter (\<lambda>x. h x \<noteq> None) xs) \<le> 1"
    using assms(1) by (rule filter_at_most_one [of f xs "\<lambda>x. h x \<noteq> None" l]) (rule assms(2))
  then show ?thesis by (simp add: map_filter_def)
qed

lemma set_map_filter: "set (List.map_filter h xs) = {y. \<exists>x\<in>set xs. h x = Some y}"
  by (induction xs) (auto split: option.splits)

lemma map_filter_prefix:
  "prefix xs ys \<Longrightarrow> prefix (List.map_filter h xs) (List.map_filter h ys)"
  by (simp add: map_filter_def filter_mono_prefix map_mono_prefix)

lemma map_filter_via_map: "List.map_filter h xs = List.map_filter id (map h xs)"
  by (induction xs) (simp_all split: option.splits)

lemma map_map_filter: "map f (List.map_filter h xs) = List.map_filter (\<lambda>x. map_option f (h x)) xs"
  by (induction xs) (simp_all split: option.splits)


section \<open>The cells are their instruction lists\<close>

text \<open>
  Each statement of the notebook is the instruction written for it, each cell the run of
  its instructions, and the notebook the run of its cells' instruction lists.
\<close>

lemma exec_instr_fields:
  "exec_instr \<lparr>iline = l, build = b, binds = a\<rparr> =
     bind_py
       (\<lambda>env s. case b (globals s) of
                   Inl x \<Rightarrow> (Inl (NameError x), s)
                 | Inr c \<Rightarrow> perform l c env s)
       (\<lambda>v. case a of None \<Rightarrow> return_py () | Some x \<Rightarrow> store_name x v)"
  by (simp add: exec_instr_def cong: sum.case_cong)

lemma import_stmt_instr:
  "import_stmt l m = exec_instr \<lparr>iline = l, build = (\<lambda>g. Inr (Import m)), binds = Some m\<rparr>"
  by (simp add: import_stmt_def exec_instr_fields)

lemma from_import_stmt_instr:
  "from_import_stmt l m x =
     exec_instr \<lparr>iline = l, build = (\<lambda>g. Inr (ImportFrom m x)), binds = Some x\<rparr>"
  by (simp add: from_import_stmt_def exec_instr_fields)

lemma load1_perform:
  "bind_py (load_name x) (\<lambda>v. perform l (f v)) =
     (\<lambda>env s. case read1 x f (globals s) of
                 Inl y \<Rightarrow> (Inl (NameError y), s)
               | Inr c \<Rightarrow> perform l c env s)"
  by (intro ext) (simp add: bind_py_def load_name_def read1_def split: option.splits)

lemma load2_perform:
  "bind_py (load_name x) (\<lambda>v. bind_py (load_name y) (\<lambda>u. perform l (f v u))) =
     (\<lambda>env s. case read2 x y f (globals s) of
                 Inl z \<Rightarrow> (Inl (NameError z), s)
               | Inr c \<Rightarrow> perform l c env s)"
  by (intro ext) (simp add: bind_py_def load_name_def read2_def split: option.splits)

lemma assign1_instr:
  "assign a (bind_py (load_name x) (\<lambda>v. perform l (f v))) =
     exec_instr \<lparr>iline = l, build = read1 x f, binds = Some a\<rparr>"
  by (simp add: assign_def exec_instr_fields load1_perform)

lemma assign2_instr:
  "assign a (bind_py (load_name x) (\<lambda>v. bind_py (load_name y) (\<lambda>u. perform l (f v u)))) =
     exec_instr \<lparr>iline = l, build = read2 x y f, binds = Some a\<rparr>"
  by (simp add: assign_def exec_instr_fields load2_perform)

lemma expr1_instr:
  "expr_stmt (bind_py (load_name x) (\<lambda>v. perform l (f v))) =
     exec_instr \<lparr>iline = l, build = read1 x f, binds = None\<rparr>"
  by (simp add: expr_stmt_def exec_instr_fields load1_perform)

lemma expr2_instr:
  "expr_stmt (bind_py (load_name x) (\<lambda>v. bind_py (load_name y) (\<lambda>u. perform l (f v u)))) =
     exec_instr \<lparr>iline = l, build = read2 x y f, binds = None\<rparr>"
  by (simp add: expr_stmt_def exec_instr_fields load2_perform)

lemmas stmt_instr =
  import_stmt_instr from_import_stmt_instr assign1_instr assign2_instr expr1_instr expr2_instr

lemma block_instrs: "block (map exec_instr is) = run_instrs is"
proof (induction "is")
  case Nil
  show ?case by (intro ext) (simp add: return_py_def)
next
  case (Cons i "is")
  show ?case
    by (intro ext) (simp add: bind_py_def Cons.IH split: prod.splits sum.splits)
qed

lemma cell0_is_instrs: "cell0 = run_instrs cell0_instrs"
  unfolding block_instrs [symmetric] cell0_instrs_def
  by (intro ext) (simp only: cell0_def stmt_instr list.map)

lemma cell2_is_instrs: "cell2 = run_instrs cell2_instrs"
  unfolding block_instrs [symmetric] cell2_instrs_def
  by (intro ext) (simp only: cell2_def stmt_instr list.map)

lemma cell3_is_instrs: "cell3 = run_instrs cell3_instrs"
  unfolding block_instrs [symmetric] cell3_instrs_def
  by (intro ext) (simp only: cell3_def stmt_instr list.map)

lemma cell5_is_instrs: "cell5 = run_instrs cell5_instrs"
  unfolding block_instrs [symmetric] cell5_instrs_def
  by (intro ext) (simp only: cell5_def stmt_instr list.map)

lemma cell7_is_instrs: "cell7 = run_instrs cell7_instrs"
  unfolding block_instrs [symmetric] cell7_instrs_def
  by (intro ext) (simp only: cell7_def stmt_instr list.map)

lemma cell9_is_instrs: "cell9 = run_instrs cell9_instrs"
  unfolding block_instrs [symmetric] cell9_instrs_def
  by (intro ext) (simp only: cell9_def stmt_instr list.map)

lemma run_cells_prog:
  "run_cells (map (\<lambda>(n, is). (n, run_instrs is)) cs) = run_prog cs"
proof (induction cs)
  case Nil
  show ?case by (intro ext) simp
next
  case (Cons c cs)
  show ?case
    by (cases c) (intro ext, simp add: Cons.IH run_cell_def split: prod.splits sum.splits)
qed

lemma run_notebook_prog: "run_notebook env w = run_prog notebook_cells env (fresh_kernel w)"
  unfolding run_cells_prog [symmetric]
  by (simp add: run_notebook_def notebook_cells_def
      cell0_is_instrs cell2_is_instrs cell3_is_instrs cell5_is_instrs cell7_is_instrs
      cell9_is_instrs)


section \<open>Runs of instruction lists\<close>

subsection \<open>One instruction\<close>

text \<open>
  An instruction ends in one of three ways: a name it reads is unbound, and nothing
  happened; its operation raised, and the event is recorded; its operation returned, the
  event is recorded and the value bound.
\<close>

lemma exec_instr_cases:
  assumes "exec_instr i env s = (r, s')"
  obtains
    (unbound) x where "build i (globals s) = Inl x" "r = Inl (NameError x)" "s' = s"
  | (raised) c e where "build i (globals s) = Inr c" "r = Inl (Raised e)"
      "trace s' = trace s @ [\<lparr>line = iline i, op = c, outcome = Inl e\<rparr>]"
      "globals s' = globals s" "executed s' = executed s"
  | (returned) c v where "build i (globals s) = Inr c" "r = Inr ()"
      "trace s' = trace s @ [\<lparr>line = iline i, op = c, outcome = Inr v\<rparr>]"
      "globals s' = (case binds i of None \<Rightarrow> globals s | Some x \<Rightarrow> (globals s)(x \<mapsto> v))"
      "executed s' = executed s"
proof (cases "build i (globals s)")
  case (Inl x)
  with assms have "r = Inl (NameError x)" "s' = s"
    by (simp_all add: exec_instr_def bind_py_def)
  with Inl show thesis by (rule unbound)
next
  case (Inr c)
  obtain a w where env: "env c (world s) = (a, w)" by (cases "env c (world s)")
  show thesis
  proof (cases a)
    case (Inl e)
    with assms Inr env show thesis
      by (intro raised [of c e])
        (auto simp: exec_instr_def bind_py_def perform_def Let_def)
  next
    case (Inr v)
    with assms \<open>build i (globals s) = Inr c\<close> env show thesis
      by (intro returned [of c v])
        (auto simp: exec_instr_def bind_py_def perform_def Let_def return_py_def
           store_name_def split: option.splits)
  qed
qed

lemma exec_instr_frame:
  "exec_instr i env (s\<lparr>executed := ex\<rparr>) =
     (case exec_instr i env s of (r, t) \<Rightarrow> (r, t\<lparr>executed := ex\<rparr>))"
  by (simp add: exec_instr_def bind_py_def perform_def Let_def return_py_def store_name_def
      split: sum.splits prod.splits option.splits)


subsection \<open>A list of instructions\<close>

text \<open>
  Instructions do not touch the record of the cells run, so the run of the cells is the run
  of all their instructions in a row, up to that record.
\<close>

lemma run_instrs_executed:
  "run_instrs is env s = (r, s') \<Longrightarrow> executed s' = executed s"
proof (induction "is" arbitrary: s)
  case Nil
  then show ?case by simp
next
  case (Cons i "is")
  obtain r1 s1 where step: "exec_instr i env s = (r1, s1)" by (cases "exec_instr i env s")
  then have ex: "executed s1 = executed s" by (cases rule: exec_instr_cases) simp_all
  show ?case
  proof (cases r1)
    case (Inl e)
    with Cons.prems step ex show ?thesis by simp
  next
    case (Inr u)
    with Cons.prems step have "run_instrs is env s1 = (r, s')" by simp
    with Cons.IH ex show ?thesis by simp
  qed
qed

lemma run_instrs_frame:
  "run_instrs is env (s\<lparr>executed := ex\<rparr>) =
     (case run_instrs is env s of (r, t) \<Rightarrow> (r, t\<lparr>executed := ex\<rparr>))"
proof (induction "is" arbitrary: s)
  case Nil
  show ?case by simp
next
  case (Cons i "is")
  show ?case
    by (simp add: exec_instr_frame Cons.IH split: prod.splits sum.splits)
qed

lemma run_instrs_append:
  "run_instrs (a @ b) env s =
     (case run_instrs a env s of
        (Inl e, t) \<Rightarrow> (Inl e, t)
      | (Inr _, t) \<Rightarrow> run_instrs b env t)"
  by (induction a arbitrary: s) (simp_all split: prod.splits sum.splits)

lemma run_prog_flat:
  "run_prog cs env s = (r, s') \<Longrightarrow>
   run_instrs (concat (map snd cs)) env s = (r, s'\<lparr>executed := executed s\<rparr>)"
proof (induction cs arbitrary: s)
  case Nil
  then show ?case by auto
next
  case (Cons c cs)
  obtain n "is" where c: "c = (n, is)" by (cases c)
  obtain r1 t1 where body: "run_instrs is env s = (r1, t1)" by (cases "run_instrs is env s")
  have ex: "executed t1 = executed s" using body by (rule run_instrs_executed)
  let ?t = "t1\<lparr>executed := executed s @ [n]\<rparr>"
  have framed: "run_instrs is env (s\<lparr>executed := executed s @ [n]\<rparr>) = (r1, ?t)"
    by (simp add: run_instrs_frame body)
  show ?case
  proof (cases r1)
    case (Inl e)
    with Cons.prems c framed have "r = Inl e" "s' = ?t" by simp_all
    with Inl body ex show ?thesis by (simp add: c run_instrs_append)
  next
    case (Inr u)
    with Cons.prems c framed have rest: "run_prog cs env ?t = (r, s')" by simp
    have "run_instrs (concat (map snd cs)) env ?t = (r, s'\<lparr>executed := executed ?t\<rparr>)"
      using rest by (rule Cons.IH)
    then have "(case run_instrs (concat (map snd cs)) env t1 of
                  (q, t) \<Rightarrow> (q, t\<lparr>executed := executed s @ [n]\<rparr>)) =
               (r, s'\<lparr>executed := executed s @ [n]\<rparr>)"
      by (simp add: run_instrs_frame)
    then obtain t2 where t2: "run_instrs (concat (map snd cs)) env t1 = (r, t2)"
      and eq: "t2\<lparr>executed := executed s @ [n]\<rparr> = s'\<lparr>executed := executed s @ [n]\<rparr>"
      by (cases "run_instrs (concat (map snd cs)) env t1") auto
    have "executed t2 = executed s" using run_instrs_executed [OF t2] ex by simp
    then have "t2 = t2\<lparr>executed := executed s\<rparr>" by simp
    also have "\<dots> = (t2\<lparr>executed := executed s @ [n]\<rparr>)\<lparr>executed := executed s\<rparr>" by simp
    also have "\<dots> = s'\<lparr>executed := executed s\<rparr>" by (simp add: eq)
    finally have "t2 = s'\<lparr>executed := executed s\<rparr>" .
    with t2 Inr body show ?thesis by (simp add: c run_instrs_append)
  qed
qed


subsection \<open>The trace follows the instructions\<close>

text \<open>
  From a state whose trace follows a program with distinct lines, in which every event
  returned and the namespace is the one the events left, the run of the instructions that
  remain ends in a state whose trace follows the program, in which only the last event may
  have raised, and whose result is that exception if it did.
\<close>

lemma name_bound_at_line:
  "distinct (map iline P) \<Longrightarrow> i \<in> set P \<Longrightarrow> name_bound_at P (iline i) = binds i"
proof (induction P)
  case Nil
  then show ?case by simp
next
  case (Cons j P)
  show ?case
  proof (cases "iline j = iline i")
    case True
    with Cons.prems have "i = j" by (auto simp: image_iff)
    then show ?thesis by (simp add: name_bound_at_def)
  next
    case False
    with Cons.prems have "i \<in> set P" "distinct (map iline P)" by auto
    with Cons.IH False show ?thesis by (simp add: name_bound_at_def)
  qed
qed

lemma namespace_snoc: "namespace P (tr @ [u]) = bind_event P (namespace P tr) u"
  by (simp add: namespace_def)

lemma follows_snoc:
  assumes "follows P tr" and "drop (length tr) P = i # is"
    and "build i (namespace P tr) = Inr c"
  shows "follows P (tr @ [\<lparr>line = iline i, op = c, outcome = a\<rparr>])"
proof -
  have len: "length tr < length P" using assms(2) by (cases "length tr < length P") auto
  have at: "P ! length tr = i" using assms(2) by (rule nth_via_drop)
  have "line ((tr @ [\<lparr>line = iline i, op = c, outcome = a\<rparr>]) ! k) = iline (P ! k) \<and>
        build (P ! k) (namespace P (take k (tr @ [\<lparr>line = iline i, op = c, outcome = a\<rparr>]))) =
          Inr (op ((tr @ [\<lparr>line = iline i, op = c, outcome = a\<rparr>]) ! k))"
    if "k < Suc (length tr)" for k
  proof (cases "k < length tr")
    case True
    with assms(1) show ?thesis by (simp add: follows_def nth_append)
  next
    case False
    with that have "k = length tr" by simp
    with at assms(3) show ?thesis by simp
  qed
  with len show ?thesis by (simp add: follows_def)
qed

lemma run_instrs_final:
  assumes "distinct (map iline P)"
  shows "good P s \<Longrightarrow> drop (length (trace s)) P = is \<Longrightarrow>
         run_instrs is env s = (r, s') \<Longrightarrow> final P r s'"
proof (induction "is" arbitrary: s)
  case Nil
  from Nil.prems(2) have "length P \<le> length (trace s)" by simp
  moreover from Nil.prems(1) have "length (trace s) \<le> length P"
    by (simp add: good_def follows_def)
  ultimately have "length (trace s) = length P" by simp
  with Nil.prems show ?case by (auto simp: good_def final_def list_all_butlast)
next
  case (Cons i "is")
  have fol: "follows P (trace s)" and ret: "list_all returned (trace s)"
    and ns: "globals s = namespace P (trace s)"
    using Cons.prems(1) by (simp_all add: good_def)
  have mem: "i \<in> set P"
    using Cons.prems(2) by (metis in_set_dropD list.set_intros(1))
  have bound: "name_bound_at P (iline i) = binds i"
    using assms mem by (rule name_bound_at_line)
  obtain r1 s1 where step: "exec_instr i env s = (r1, s1)" by (cases "exec_instr i env s")
  from step show ?case
  proof (cases rule: exec_instr_cases)
    case (unbound x)
    with Cons.prems(3) step have "r = Inl (NameError x)" "s' = s" by simp_all
    with fol ret ns show ?thesis by (simp add: final_def list_all_butlast)
  next
    case (raised c e)
    let ?ev = "\<lparr>line = iline i, op = c, outcome = Inl e\<rparr>"
    from raised Cons.prems(3) step have res: "r = Inl (Raised e)" "s' = s1" by simp_all
    have "follows P (trace s @ [?ev])"
      using fol Cons.prems(2) raised(1) by (intro follows_snoc) (simp_all add: ns)
    moreover have "namespace P (trace s @ [?ev]) = namespace P (trace s)"
      by (simp add: namespace_snoc bind_event_def)
    ultimately show ?thesis
      using raised ret ns by (simp add: res final_def)
  next
    case (returned c v)
    let ?ev = "\<lparr>line = iline i, op = c, outcome = Inr v\<rparr>"
    from returned Cons.prems(3) step have rest: "run_instrs is env s1 = (r, s')" by simp
    have "follows P (trace s @ [?ev])"
      using fol Cons.prems(2) returned(1) by (intro follows_snoc) (simp_all add: ns)
    moreover have "namespace P (trace s @ [?ev]) = globals s1"
      using returned(4) bound
      by (simp add: namespace_snoc bind_event_def ns split: option.splits)
    ultimately have "good P s1"
      using returned(3) ret by (simp add: good_def returned_def)
    moreover have "drop (length (trace s1)) P = is"
      using Cons.prems(2) returned(3) by (simp add: drop_Suc tl_drop [symmetric])
    ultimately show ?thesis using rest by (rule Cons.IH)
  qed
qed

lemma follows_lines: "follows P tr \<Longrightarrow> map line tr = take (length tr) (map iline P)"
  by (rule nth_equalityI) (simp_all add: follows_def)

lemma namespace_source:
  "namespace P tr x = Some v \<Longrightarrow>
   \<exists>u\<in>set tr. name_bound_at P (line u) = Some x \<and> outcome u = Inr v"
proof (induction tr arbitrary: v rule: rev_induct)
  case Nil
  then show ?case by (simp add: namespace_def)
next
  case (snoc u tr)
  show ?case
  proof (cases "namespace P tr x = Some v")
    case True
    with snoc.IH show ?thesis by auto
  next
    case False
    with snoc.prems have "name_bound_at P (line u) = Some x \<and> outcome u = Inr v"
      by (auto simp: namespace_snoc bind_event_def split: sum.splits option.splits if_splits)
    then show ?thesis by simp
  qed
qed

lemma follows_source:
  assumes "follows P tr" and "ev \<in> set tr"
  shows "\<exists>i\<in>set P. \<exists>g. iline i = line ev \<and> build i g = Inr (op ev) \<and>
           (\<forall>x v. g x = Some v \<longrightarrow>
              (\<exists>u\<in>set tr. name_bound_at P (line u) = Some x \<and> outcome u = Inr v))"
proof -
  from assms(2) obtain k where k: "k < length tr" "tr ! k = ev"
    by (auto simp: in_set_conv_nth)
  with assms(1) have "k < length P" and at: "line ev = iline (P ! k)"
    "build (P ! k) (namespace P (take k tr)) = Inr (op ev)"
    by (auto simp: follows_def)
  have "\<exists>u\<in>set tr. name_bound_at P (line u) = Some x \<and> outcome u = Inr v"
    if "namespace P (take k tr) x = Some v" for x v
    using namespace_source [OF that] by (auto dest: in_set_takeD)
  with at \<open>k < length P\<close> show ?thesis
    by (intro bexI [of _ "P ! k"] exI [of _ "namespace P (take k tr)"]) simp_all
qed

lemma namespace_bound:
  assumes "distinct (map line tr)" and "u \<in> set tr" and "outcome u = Inr v"
    and "name_bound_at P (line u) = Some x"
    and "\<And>z. z \<in> set tr \<Longrightarrow> name_bound_at P (line z) = Some x \<Longrightarrow> line z = line u"
  shows "namespace P tr x = Some v"
  using assms
proof (induction tr rule: rev_induct)
  case Nil
  then show ?case by simp
next
  case (snoc z tr)
  show ?case
  proof (cases "z = u")
    case True
    with snoc.prems(3,4) show ?thesis by (simp add: namespace_snoc bind_event_def)
  next
    case False
    with snoc.prems(2) have u: "u \<in> set tr" by simp
    have d: "distinct (map line tr)" using snoc.prems(1) by simp
    have "line z \<notin> line ` set tr" using snoc.prems(1) by simp
    with u have "line z \<noteq> line u" by (auto simp: image_iff)
    moreover have "name_bound_at P (line z) = Some x \<Longrightarrow> line z = line u"
      by (rule snoc.prems(5)) simp_all
    ultimately have other: "name_bound_at P (line z) \<noteq> Some x" by blast
    have ih: "namespace P tr x = Some v"
      by (rule snoc.IH [OF d u snoc.prems(3) snoc.prems(4)]) (rule snoc.prems(5), simp_all)
    show ?thesis
    proof (cases "outcome z")
      case (Inl e)
      with ih show ?thesis by (simp add: namespace_snoc bind_event_def)
    next
      case (Inr w)
      show ?thesis
      proof (cases "name_bound_at P (line z)")
        case None
        with Inr ih show ?thesis by (simp add: namespace_snoc bind_event_def)
      next
        case (Some y)
        with other have "y \<noteq> x" by simp
        with Some Inr ih show ?thesis by (simp add: namespace_snoc bind_event_def)
      qed
    qed
  qed
qed

lemma follows_view:
  assumes "follows P tr"
    and "\<And>i g c. i \<in> set P \<Longrightarrow> build i g = Inr c \<Longrightarrow> f c = h i"
  shows "map (\<lambda>ev. f (op ev)) tr = take (length tr) (map h P)"
proof (rule nth_equalityI)
  show "length (map (\<lambda>ev. f (op ev)) tr) = length (take (length tr) (map h P))"
    using assms(1) by (simp add: follows_def)
next
  fix k assume "k < length (map (\<lambda>ev. f (op ev)) tr)"
  then have k: "k < length tr" by simp
  with assms(1) have "k < length P"
    and "build (P ! k) (namespace P (take k tr)) = Inr (op (tr ! k))"
    by (auto simp: follows_def)
  with assms(2) [of "P ! k"] have "f (op (tr ! k)) = h (P ! k)" by simp
  with k \<open>k < length P\<close> show "map (\<lambda>ev. f (op ev)) tr ! k = take (length tr) (map h P) ! k"
    by simp
qed

lemma follows_static:
  assumes "follows P tr"
    and "\<And>i g c. i \<in> set P \<Longrightarrow> build i g = Inr c \<Longrightarrow> f c = f' i"
  shows "List.map_filter (\<lambda>ev. f (op ev)) tr =
           List.map_filter id (take (length tr) (map f' P))"
proof -
  have "map (\<lambda>ev. f (op ev)) tr = take (length tr) (map f' P)"
    using assms(1) by (rule follows_view) (rule assms(2))
  then have "List.map_filter id (map (\<lambda>ev. f (op ev)) tr) =
             List.map_filter id (take (length tr) (map f' P))"
    by (rule arg_cong)
  moreover have "List.map_filter (\<lambda>ev. f (op ev)) tr =
                 List.map_filter id (map (\<lambda>ev. f (op ev)) tr)"
    by (rule map_filter_via_map)
  ultimately show ?thesis by (rule trans [rotated])
qed


subsection \<open>Every name read is bound\<close>

lemma run_instrs_no_name_error:
  "reads_bound B is \<Longrightarrow> B \<subseteq> dom (globals s) \<Longrightarrow> run_instrs is env s = (r, s') \<Longrightarrow>
   r \<noteq> Inl (NameError x)"
proof (induction "is" arbitrary: B s)
  case Nil
  then show ?case by auto
next
  case (Cons i "is")
  from Cons.prems(1,2) have built: "\<not> isl (build i (globals s))" by simp
  obtain r1 s1 where step: "exec_instr i env s = (r1, s1)" by (cases "exec_instr i env s")
  from step show ?case
  proof (cases rule: exec_instr_cases)
    case (unbound y)
    with built show ?thesis by simp
  next
    case (raised c e)
    with Cons.prems(3) step show ?thesis by auto
  next
    case (returned c v)
    with Cons.prems(3) step have rest: "run_instrs is env s1 = (r, s')" by simp
    have "B \<union> set_option (binds i) \<subseteq> dom (globals s1)"
      using Cons.prems(2) returned(4) by (auto split: option.splits)
    with Cons.prems(1) rest show ?thesis by (intro Cons.IH [of "B \<union> set_option (binds i)" s1]) simp_all
  qed
qed


subsection \<open>The cells run\<close>

lemma run_instrs_raised:
  "run_instrs is env s = (Inl (Raised e), s') \<Longrightarrow>
   trace s' \<noteq> [] \<and> line (last (trace s')) \<in> iline ` set is"
proof (induction "is" arbitrary: s)
  case Nil
  then show ?case by simp
next
  case (Cons i "is")
  obtain r1 s1 where step: "exec_instr i env s = (r1, s1)" by (cases "exec_instr i env s")
  from step show ?case
  proof (cases rule: exec_instr_cases)
    case (unbound y)
    with Cons.prems step show ?thesis by simp
  next
    case (raised c e')
    with Cons.prems step have "s' = s1" by simp
    with raised show ?thesis by simp
  next
    case (returned c v)
    with Cons.prems step have "run_instrs is env s1 = (Inl (Raised e), s')" by simp
    then show ?thesis using Cons.IH by auto
  qed
qed

lemma run_prog_executed:
  "run_prog cs env s = (r, s') \<Longrightarrow>
   prefix (executed s') (executed s @ map fst cs) \<and>
   (r = Inr () \<longrightarrow> executed s' = executed s @ map fst cs)"
proof (induction cs arbitrary: s)
  case Nil
  then show ?case by auto
next
  case (Cons c cs)
  obtain n "is" where c: "c = (n, is)" by (cases c)
  let ?s = "s\<lparr>executed := executed s @ [n]\<rparr>"
  obtain r1 s1 where body: "run_instrs is env ?s = (r1, s1)" by (cases "run_instrs is env ?s")
  then have ex: "executed s1 = executed s @ [n]" by (simp add: run_instrs_executed)
  show ?case
  proof (cases r1)
    case (Inl e)
    with Cons.prems c body have "r = Inl e" "s' = s1" by simp_all
    with ex show ?thesis by (simp add: c)
  next
    case (Inr u)
    with Cons.prems c body have "run_prog cs env s1 = (r, s')" by simp
    from Cons.IH [OF this] ex show ?thesis by (simp add: c)
  qed
qed

lemma run_prog_raised:
  "run_prog cs env s = (Inl (Raised e), s') \<Longrightarrow>
   \<exists>(n, is) \<in> set cs. last (executed s') = n \<and> line (last (trace s')) \<in> iline ` set is"
proof (induction cs arbitrary: s)
  case Nil
  then show ?case by simp
next
  case (Cons c cs)
  obtain n "is" where c: "c = (n, is)" by (cases c)
  let ?s = "s\<lparr>executed := executed s @ [n]\<rparr>"
  obtain r1 s1 where body: "run_instrs is env ?s = (r1, s1)" by (cases "run_instrs is env ?s")
  then have ex: "executed s1 = executed s @ [n]" by (simp add: run_instrs_executed)
  show ?case
  proof (cases r1)
    case (Inl x)
    with Cons.prems c body have "x = Raised e" "s' = s1" by simp_all
    with Inl body have "run_instrs is env ?s = (Inl (Raised e), s')" by simp
    then have "line (last (trace s')) \<in> iline ` set is"
      by (rule run_instrs_raised [THEN conjunct2])
    with ex \<open>s' = s1\<close> show ?thesis by (simp add: c)
  next
    case (Inr u)
    with Cons.prems c body have "run_prog cs env s1 = (Inl (Raised e), s')" by simp
    from Cons.IH [OF this] show ?thesis by auto
  qed
qed


section \<open>The runs of the notebook\<close>

subsection \<open>Its instructions\<close>

lemmas notebook_instrs_defs =
  notebook_instrs_def notebook_cells_def cell0_instrs_def cell2_instrs_def cell3_instrs_def
  cell5_instrs_def cell7_instrs_def cell9_instrs_def

lemma notebook_lines:
  "map iline notebook_instrs = [11, 13, 14, 15, 16, 17, 19, 21, 39, 40, 51, 69, 97, 115]"
  by (simp add: notebook_instrs_defs)

lemma notebook_distinct: "distinct (map iline notebook_instrs)"
  by (simp add: notebook_lines)

lemma notebook_reads_bound: "reads_bound {} notebook_instrs"
  by (auto simp: notebook_instrs_defs read1_def read2_def split: option.splits)

lemma notebook_callee:
  assumes "i \<in> set notebook_instrs" and "build i g = Inr c"
  shows "callee c =
     (if iline i = 19 then Some (''sagemaker'', [''Session''])
      else if iline i = 21 then Some (''get_execution_role'', [])
      else if iline i = 39 \<or> iline i = 40 then Some (''gluon'', [''data'', ''vision'', ''MNIST''])
      else if iline i = 51 then Some (''sagemaker_session'', [''upload_data''])
      else if iline i = 69 then Some (''MXNet'', [])
      else if iline i = 97 then Some (''model'', [''fit''])
      else if iline i = 115 then Some (''model'', [''deploy''])
      else None)"
  using assms
  by (auto simp: notebook_instrs_defs read1_def read2_def split: option.splits)

lemma notebook_phase:
  assumes "i \<in> set notebook_instrs" and "build i g = Inr c"
  shows "phase_of c =
     (if iline i = 19 \<or> iline i = 21 then Some Acquire
      else if iline i = 39 \<or> iline i = 40 then Some Fetch
      else if iline i = 51 then Some Upload
      else if iline i = 69 then Some Construct
      else if iline i = 97 then Some Fit
      else if iline i = 115 then Some Deploy
      else None)"
  using notebook_callee [OF assms]
  by (cases c) (auto split: if_splits)

lemma notebook_cell_lines:
  "list_all (\<lambda>(n, is). list_all (\<lambda>i. cell_of_line (iline i) = Some n) is) notebook_cells"
  by (simp add: notebook_instrs_defs cell_of_line_def)

lemma name_bound_at_notebook:
  "name_bound_at notebook_instrs l = Some ''sagemaker_session'' \<longleftrightarrow> l = 19"
  "name_bound_at notebook_instrs l = Some ''inputs'' \<longleftrightarrow> l = 51"
  "name_bound_at notebook_instrs l = Some ''model'' \<longleftrightarrow> l = 69"
  by (auto simp: name_bound_at_def notebook_instrs_defs split: if_splits)

lemma hyperparameters_items:
  "hyperparameters =
     PDict [(''batch_size'', PInt 100), (''epochs'', PInt 5),
            (''learning_rate'', PFloat 1 (- 1)), (''momentum'', PFloat 9 (- 1)),
            (''log_interval'', PInt 100)]"
  by (simp add: hyperparameters_def dict_display_def)


subsection \<open>Every run\<close>

lemma good_fresh: "good P (fresh_kernel w)"
  by (simp add: good_def follows_def fresh_kernel_def namespace_def)

lemma final_executed: "final P r (s\<lparr>executed := ex\<rparr>) = final P r s"
  by (simp add: final_def)

lemma notebook_final:
  assumes "run_notebook env w = (r, s)"
  shows "final notebook_instrs r s" and "r \<noteq> Inl (NameError x)"
proof -
  let ?s0 = "fresh_kernel w :: ('a, 'b) state"
  from assms have "run_prog notebook_cells env ?s0 = (r, s)"
    by (simp add: run_notebook_prog)
  then have flat: "run_instrs notebook_instrs env ?s0 = (r, s\<lparr>executed := executed ?s0\<rparr>)"
    unfolding notebook_instrs_def by (rule run_prog_flat)
  have "final notebook_instrs r (s\<lparr>executed := executed ?s0\<rparr>)"
    using notebook_distinct good_fresh _ flat
    by (rule run_instrs_final) (simp add: fresh_kernel_def)
  then show "final notebook_instrs r s" by (simp add: final_executed)
  show "r \<noteq> Inl (NameError x)"
    using notebook_reads_bound _ flat
    by (rule run_instrs_no_name_error) simp
qed

lemma notebook_trace_lines:
  assumes "run_notebook env w = (r, s)"
  shows "map line (trace s) =
           take (length (trace s)) [11, 13, 14, 15, 16, 17, 19, 21, 39, 40, 51, 69, 97, 115]"
proof -
  have "follows notebook_instrs (trace s)"
    using notebook_final(1) [OF assms] by (simp add: final_def)
  then show ?thesis
    unfolding notebook_lines [symmetric] by (rule follows_lines)
qed

lemma notebook_distinct_lines:
  assumes "run_notebook env w = (r, s)"
  shows "distinct (map line (trace s))"
  unfolding notebook_trace_lines [OF assms] by (rule distinct_take) simp

lemma notebook_event_source:
  assumes "run_notebook env w = (r, s)" and "ev \<in> set (trace s)"
  obtains i g where "i \<in> set notebook_instrs" and "iline i = line ev"
    and "build i g = Inr (op ev)"
proof -
  have "follows notebook_instrs (trace s)"
    using notebook_final(1) [OF assms(1)] by (simp add: final_def)
  from follows_source [OF this assms(2)] that show thesis by blast
qed

lemma notebook_static:
  assumes "run_notebook env w = (r, s)"
    and "\<And>i g c. i \<in> set notebook_instrs \<Longrightarrow> build i g = Inr c \<Longrightarrow> f c = f' (iline i)"
  shows "prefix (List.map_filter (\<lambda>ev. f (op ev)) (trace s))
           (List.map_filter f' [11, 13, 14, 15, 16, 17, 19, 21, 39, 40, 51, 69, 97, 115])"
    and "r = Inr () \<Longrightarrow>
         List.map_filter (\<lambda>ev. f (op ev)) (trace s) =
           List.map_filter f' [11, 13, 14, 15, 16, 17, 19, 21, 39, 40, 51, 69, 97, 115]"
proof -
  let ?lines = "[11, 13, 14, 15, 16, 17, 19, 21, 39, 40, 51, 69, 97, 115] :: nat list"
  have fin: "final notebook_instrs r s" using assms(1) by (rule notebook_final(1))
  then have "follows notebook_instrs (trace s)" by (simp add: final_def)
  then have "List.map_filter (\<lambda>ev. f (op ev)) (trace s) =
      List.map_filter id (take (length (trace s)) (map (\<lambda>i. f' (iline i)) notebook_instrs))"
    by (rule follows_static) (rule assms(2))
  also have "map (\<lambda>i. f' (iline i)) notebook_instrs = map f' ?lines"
    unfolding notebook_lines [symmetric] by simp
  finally have eq: "List.map_filter (\<lambda>ev. f (op ev)) (trace s) =
      List.map_filter id (take (length (trace s)) (map f' ?lines))" .
  have "prefix (List.map_filter id (take (length (trace s)) (map f' ?lines)))
          (List.map_filter id (map f' ?lines))"
    by (intro map_filter_prefix take_is_prefix)
  then show "prefix (List.map_filter (\<lambda>ev. f (op ev)) (trace s)) (List.map_filter f' ?lines)"
    by (simp only: eq map_filter_via_map [of f' ?lines])
  assume "r = Inr ()"
  with fin have "length (trace s) = length notebook_instrs" by (simp add: final_def)
  also have "\<dots> = length ?lines" unfolding notebook_lines [symmetric] by simp
  finally have "take (length (trace s)) (map f' ?lines) = map f' ?lines" by simp
  then show "List.map_filter (\<lambda>ev. f (op ev)) (trace s) = List.map_filter f' ?lines"
    by (simp only: eq map_filter_via_map [of f' ?lines])
qed

lemma fit_before_deploy:
  assumes "run_notebook env w = (r, s)" and "ev \<in> set (trace s)" and "line ev = 115"
  obtains u where "u \<in> set (trace s)" and "line u = 97"
proof -
  let ?lines = "[11, 13, 14, 15, 16, 17, 19, 21, 39, 40, 51, 69, 97, 115] :: nat list"
  have lines: "map line (trace s) = take (length (trace s)) ?lines"
    using assms(1) by (rule notebook_trace_lines)
  have "115 \<in> set (map line (trace s))" using assms(2,3) by force
  then have in_take: "115 \<in> set (take (length (trace s)) ?lines)" by (simp only: lines)
  have "14 \<le> length (trace s)"
  proof (rule ccontr)
    assume "\<not> 14 \<le> length (trace s)"
    then have "length (trace s) \<le> 13" by simp
    then have "set (take (length (trace s)) ?lines) \<subseteq> set (take 13 ?lines)"
      by (rule set_take_subset_set_take)
    with in_take have "115 \<in> set (take 13 ?lines)" by (rule subsetD [rotated])
    then show False by simp
  qed
  then have "map line (trace s) = ?lines" by (simp add: lines)
  then have "97 \<in> set (map line (trace s))" by simp
  then obtain u where "u \<in> set (trace s)" "line u = 97" by auto
  then show thesis by (rule that)
qed


subsection \<open>The calls of a run\<close>

lemma in_calls_of:
  "c \<in> set (calls_of t p tr) \<longleftrightarrow> (\<exists>ev\<in>set tr. call_at t p ev = Some c)"
  by (simp add: calls_of_def set_map_filter)

lemma in_results_of:
  "v \<in> set (results_of t p tr) \<longleftrightarrow> (\<exists>ev\<in>set tr. result_at t p ev = Some v)"
  by (simp add: results_of_def set_map_filter)

lemma call_at_Some:
  "call_at t p ev = Some c \<longleftrightarrow> op ev = Call c \<and> target c = t \<and> attrs c = p"
  by (auto simp: call_at_def split: op.splits)

lemma result_at_Some:
  "result_at t p ev = Some v \<longleftrightarrow> (\<exists>c. call_at t p ev = Some c) \<and> outcome ev = Inr v"
  by (auto simp: result_at_def split: option.splits sum.splits)

lemma call_at_callee: "call_at t p ev \<noteq> None \<longleftrightarrow> callee (op ev) = Some (t, p)"
  by (cases "op ev") (auto simp: call_at_def)

lemma notebook_call_source:
  assumes "run_notebook env w = (r, s)" and "ev \<in> set (trace s)"
    and "call_at t p ev = Some c"
  obtains i g where "i \<in> set notebook_instrs" and "iline i = line ev"
    and "build i g = Inr (Call c)" and "target c = t" and "attrs c = p"
    and "\<forall>x v. g x = Some v \<longrightarrow>
           (\<exists>u\<in>set (trace s). name_bound_at notebook_instrs (line u) = Some x \<and>
                                outcome u = Inr v)"
proof -
  have "follows notebook_instrs (trace s)"
    using notebook_final(1) [OF assms(1)] by (simp add: final_def)
  from follows_source [OF this assms(2)] obtain i g
    where "i \<in> set notebook_instrs" "iline i = line ev" "build i g = Inr (op ev)"
      and "\<forall>x v. g x = Some v \<longrightarrow>
             (\<exists>u\<in>set (trace s). name_bound_at notebook_instrs (line u) = Some x \<and>
                                  outcome u = Inr v)"
    by blast
  with assms(3) that show thesis by (simp add: call_at_Some)
qed

lemma call_line_iff:
  assumes "run_notebook env w = (r, s)" and "ev \<in> set (trace s)"
  shows "call_at ''sagemaker'' [''Session''] ev \<noteq> None \<longleftrightarrow> line ev = 19"
    and "call_at ''sagemaker_session'' [''upload_data''] ev \<noteq> None \<longleftrightarrow> line ev = 51"
    and "call_at ''MXNet'' [] ev \<noteq> None \<longleftrightarrow> line ev = 69"
    and "call_at ''model'' [''fit''] ev \<noteq> None \<longleftrightarrow> line ev = 97"
    and "call_at ''model'' [''deploy''] ev \<noteq> None \<longleftrightarrow> line ev = 115"
proof -
  from assms obtain i g where "i \<in> set notebook_instrs" "iline i = line ev"
    "build i g = Inr (op ev)"
    by (rule notebook_event_source)
  from notebook_callee [OF this(1,3)] this(2)
  have *: "callee (op ev) =
     (if line ev = 19 then Some (''sagemaker'', [''Session''])
      else if line ev = 21 then Some (''get_execution_role'', [])
      else if line ev = 39 \<or> line ev = 40 then Some (''gluon'', [''data'', ''vision'', ''MNIST''])
      else if line ev = 51 then Some (''sagemaker_session'', [''upload_data''])
      else if line ev = 69 then Some (''MXNet'', [])
      else if line ev = 97 then Some (''model'', [''fit''])
      else if line ev = 115 then Some (''model'', [''deploy''])
      else None)"
    by simp
  show "call_at ''sagemaker'' [''Session''] ev \<noteq> None \<longleftrightarrow> line ev = 19"
    unfolding call_at_callee * by simp
  show "call_at ''sagemaker_session'' [''upload_data''] ev \<noteq> None \<longleftrightarrow> line ev = 51"
    unfolding call_at_callee * by simp
  show "call_at ''MXNet'' [] ev \<noteq> None \<longleftrightarrow> line ev = 69"
    unfolding call_at_callee * by simp
  show "call_at ''model'' [''fit''] ev \<noteq> None \<longleftrightarrow> line ev = 97"
    unfolding call_at_callee * by simp
  show "call_at ''model'' [''deploy''] ev \<noteq> None \<longleftrightarrow> line ev = 115"
    unfolding call_at_callee * by simp
qed

lemma result_of_line:
  assumes "run_notebook env w = (r, s)" and "u \<in> set (trace s)" and "outcome u = Inr v"
    and "call_at t p u \<noteq> None"
    and "\<And>ev. ev \<in> set (trace s) \<Longrightarrow> call_at t p ev \<noteq> None \<Longrightarrow> line ev = line u"
  shows "results_of t p (trace s) = [v]"
  unfolding results_of_def
proof (rule map_filter_single [of line _ u])
  show "distinct (map line (trace s))" using assms(1) by (rule notebook_distinct_lines)
  show "u \<in> set (trace s)" by (rule assms(2))
  show "result_at t p u = Some v" using assms(3,4) by (auto simp: result_at_def)
  show "line ev = line u" if "ev \<in> set (trace s)" "result_at t p ev \<noteq> None" for ev
    using that(2) by (intro assms(5) that(1)) (auto simp: result_at_def split: option.splits)
qed

lemma call_of_line:
  assumes "run_notebook env w = (r, s)" and "u \<in> set (trace s)"
    and "call_at t p u = Some c"
    and "\<And>ev. ev \<in> set (trace s) \<Longrightarrow> call_at t p ev \<noteq> None \<Longrightarrow> line ev = line u"
  shows "calls_of t p (trace s) = [c]"
  unfolding calls_of_def
  using notebook_distinct_lines [OF assms(1)] assms(2,3)
  by (rule map_filter_single [of line _ u]) (rule assms(4))

lemma at_most_one_call:
  assumes "run_notebook env w = (r, s)"
    and "\<And>ev. ev \<in> set (trace s) \<Longrightarrow> call_at t p ev \<noteq> None \<Longrightarrow> line ev = l"
  shows "length (calls_of t p (trace s)) \<le> 1"
  unfolding calls_of_def
  using notebook_distinct_lines [OF assms(1)]
  by (rule map_filter_at_most_one [of line _ _ l]) (rule assms(2))

lemma estimator_call:
  assumes "run_notebook env w = (r, s)" and "ev \<in> set (trace s)"
    and "call_at ''MXNet'' [] ev = Some c"
  shows "line ev = 69" and "args c = [PStr ''entry.py'']"
    and "\<exists>x. kwargs c = [(''role'', x), (''train_instance_count'', PInt 1),
                           (''train_instance_type'', PStr ''ml.c4.xlarge''),
                           (''hyperparameters'', hyperparameters)]"
proof -
  from assms obtain i g where "i \<in> set notebook_instrs" "iline i = line ev"
    "build i g = Inr (Call c)" "target c = ''MXNet''" "attrs c = []"
    by (rule notebook_call_source)
  then show "line ev = 69" and "args c = [PStr ''entry.py'']"
    and "\<exists>x. kwargs c = [(''role'', x), (''train_instance_count'', PInt 1),
                           (''train_instance_type'', PStr ''ml.c4.xlarge''),
                           (''hyperparameters'', hyperparameters)]"
    by (auto simp: notebook_instrs_defs read1_def read2_def split: option.splits)
qed

lemma upload_call:
  assumes "run_notebook env w = (r, s)" and "ev \<in> set (trace s)"
    and "call_at ''sagemaker_session'' [''upload_data''] ev = Some c"
  shows "args c = []"
    and "kwargs c = [(''path'', PStr ''data''), (''key_prefix'', PStr ''data/DEMO-mnist'')]"
    and "results_of ''sagemaker'' [''Session''] (trace s) = [base c]"
proof -
  from assms obtain i g where i: "i \<in> set notebook_instrs" "iline i = line ev"
    "build i g = Inr (Call c)" "target c = ''sagemaker_session''" "attrs c = [''upload_data'']"
    and src: "\<forall>x v. g x = Some v \<longrightarrow>
           (\<exists>u\<in>set (trace s). name_bound_at notebook_instrs (line u) = Some x \<and>
                                outcome u = Inr v)"
    by (rule notebook_call_source)
  from i show "args c = []"
    and "kwargs c = [(''path'', PStr ''data''), (''key_prefix'', PStr ''data/DEMO-mnist'')]"
    by (auto simp: notebook_instrs_defs read1_def read2_def split: option.splits)
  from i have "g ''sagemaker_session'' = Some (base c)"
    by (auto simp: notebook_instrs_defs read1_def read2_def split: option.splits)
  from src [rule_format, OF this] obtain u where u: "u \<in> set (trace s)" "line u = 19"
    "outcome u = Inr (base c)"
    by (auto simp: name_bound_at_notebook)
  show "results_of ''sagemaker'' [''Session''] (trace s) = [base c]"
    using assms(1) u(1,3)
  proof (rule result_of_line)
    show "call_at ''sagemaker'' [''Session''] u \<noteq> None"
      using call_line_iff(1) [OF assms(1) u(1)] u(2) by simp
    show "line ev = line u"
      if "ev \<in> set (trace s)" "call_at ''sagemaker'' [''Session''] ev \<noteq> None" for ev
      using call_line_iff(1) [OF assms(1) that(1)] that(2) u(2) by simp
  qed
qed

lemma fit_call:
  assumes "run_notebook env w = (r, s)" and "ev \<in> set (trace s)"
    and "call_at ''model'' [''fit''] ev = Some c"
  shows "kwargs c = []"
    and "\<exists>v. args c = [v] \<and> results_of ''sagemaker_session'' [''upload_data''] (trace s) = [v]"
    and "results_of ''MXNet'' [] (trace s) = [base c]"
proof -
  from assms obtain i g where i: "i \<in> set notebook_instrs" "iline i = line ev"
    "build i g = Inr (Call c)" "target c = ''model''" "attrs c = [''fit'']"
    and src: "\<forall>x v. g x = Some v \<longrightarrow>
           (\<exists>u\<in>set (trace s). name_bound_at notebook_instrs (line u) = Some x \<and>
                                outcome u = Inr v)"
    by (rule notebook_call_source)
  from i show "kwargs c = []"
    by (auto simp: notebook_instrs_defs read1_def read2_def split: option.splits)
  from i obtain v where v: "args c = [v]" "g ''inputs'' = Some v"
    and m: "g ''model'' = Some (base c)"
    by (auto simp: notebook_instrs_defs read1_def read2_def split: option.splits)
  from src [rule_format, OF v(2)] obtain u where u: "u \<in> set (trace s)" "line u = 51" "outcome u = Inr v"
    by (auto simp: name_bound_at_notebook)
  have "results_of ''sagemaker_session'' [''upload_data''] (trace s) = [v]"
    using assms(1) u(1,3)
  proof (rule result_of_line)
    show "call_at ''sagemaker_session'' [''upload_data''] u \<noteq> None"
      using call_line_iff(2) [OF assms(1) u(1)] u(2) by simp
    show "line z = line u"
      if "z \<in> set (trace s)" "call_at ''sagemaker_session'' [''upload_data''] z \<noteq> None" for z
      using call_line_iff(2) [OF assms(1) that(1)] that(2) u(2) by simp
  qed
  with v(1) show "\<exists>v. args c = [v] \<and>
      results_of ''sagemaker_session'' [''upload_data''] (trace s) = [v]"
    by simp
  from src [rule_format, OF m] obtain u where u: "u \<in> set (trace s)" "line u = 69"
    "outcome u = Inr (base c)"
    by (auto simp: name_bound_at_notebook)
  show "results_of ''MXNet'' [] (trace s) = [base c]"
    using assms(1) u(1,3)
  proof (rule result_of_line)
    show "call_at ''MXNet'' [] u \<noteq> None"
      using call_line_iff(3) [OF assms(1) u(1)] u(2) by simp
    show "line z = line u" if "z \<in> set (trace s)" "call_at ''MXNet'' [] z \<noteq> None" for z
      using call_line_iff(3) [OF assms(1) that(1)] that(2) u(2) by simp
  qed
qed

lemma deploy_call:
  assumes "run_notebook env w = (r, s)" and "ev \<in> set (trace s)"
    and "call_at ''model'' [''deploy''] ev = Some c"
  shows "args c = []"
    and "kwargs c = [(''initial_instance_count'', PInt 1),
                     (''instance_type'', PStr ''ml.m4.xlarge'')]"
    and "results_of ''MXNet'' [] (trace s) = [base c]"
proof -
  from assms obtain i g where i: "i \<in> set notebook_instrs" "iline i = line ev"
    "build i g = Inr (Call c)" "target c = ''model''" "attrs c = [''deploy'']"
    and src: "\<forall>x v. g x = Some v \<longrightarrow>
           (\<exists>u\<in>set (trace s). name_bound_at notebook_instrs (line u) = Some x \<and>
                                outcome u = Inr v)"
    by (rule notebook_call_source)
  from i show "args c = []"
    and "kwargs c = [(''initial_instance_count'', PInt 1),
                     (''instance_type'', PStr ''ml.m4.xlarge'')]"
    by (auto simp: notebook_instrs_defs read1_def read2_def split: option.splits)
  from i have "g ''model'' = Some (base c)"
    by (auto simp: notebook_instrs_defs read1_def read2_def split: option.splits)
  from src [rule_format, OF this] obtain u where u: "u \<in> set (trace s)" "line u = 69"
    "outcome u = Inr (base c)"
    by (auto simp: name_bound_at_notebook)
  show "results_of ''MXNet'' [] (trace s) = [base c]"
    using assms(1) u(1,3)
  proof (rule result_of_line)
    show "call_at ''MXNet'' [] u \<noteq> None"
      using call_line_iff(3) [OF assms(1) u(1)] u(2) by simp
    show "line z = line u" if "z \<in> set (trace s)" "call_at ''MXNet'' [] z \<noteq> None" for z
      using call_line_iff(3) [OF assms(1) that(1)] that(2) u(2) by simp
  qed
qed


subsection \<open>Two concrete runs\<close>

lemmas py_defs =
  run_notebook_def fresh_kernel_def run_cell_def
  cell0_def cell2_def cell3_def cell5_def cell7_def cell9_def
  import_stmt_def from_import_stmt_def assign_def expr_stmt_def
  bind_py_def return_py_def load_name_def store_name_def perform_def

lemma run_ok:
  "fst (run_notebook env_ok 0) = Inr ()"
  "trace (snd (run_notebook env_ok 0)) = trace_ok"
  "executed (snd (run_notebook env_ok 0)) = [0, 2, 3, 5, 7, 9]"
  "globals (snd (run_notebook env_ok 0)) ''inputs'' = Some (PObj 10)"
  by (simp_all add: py_defs env_ok_def trace_ok_def)

lemma run_quota:
  "fst (run_notebook env_quota 0) = Inl (Raised ''ResourceLimitExceeded'')"
  "trace (snd (run_notebook env_quota 0)) = trace_quota"
  "executed (snd (run_notebook env_quota 0)) = [0, 2, 3, 5, 7]"
  by (simp_all add: py_defs env_quota_def trace_quota_def trace_ok_def)

lemma run_ok_pair: "run_notebook env_ok 0 = (Inr (), snd (run_notebook env_ok 0))"
  using run_ok(1) by (simp add: prod_eq_iff)

lemma run_quota_pair:
  "run_notebook env_quota 0 =
     (Inl (Raised ''ResourceLimitExceeded''), snd (run_notebook env_quota 0))"
  using run_quota(1) by (simp add: prod_eq_iff)

lemma calls_ok:
  "calls_of ''MXNet'' [] (trace (snd (run_notebook env_ok 0))) = [estimator_ok]"
  "calls_of ''sagemaker_session'' [''upload_data''] (trace (snd (run_notebook env_ok 0))) =
     [upload_ok]"
  "calls_of ''model'' [''fit''] (trace (snd (run_notebook env_ok 0))) = [fit_ok]"
  "calls_of ''model'' [''deploy''] (trace (snd (run_notebook env_ok 0))) = [deploy_ok]"
  by (simp_all add: run_ok(2) trace_ok_def calls_of_def call_at_def
      estimator_ok_def upload_ok_def fit_ok_def deploy_ok_def)

lemma results_ok:
  "results_of ''sagemaker_session'' [''upload_data''] (trace (snd (run_notebook env_ok 0))) =
     [PObj 10]"
  "results_of ''MXNet'' [] (trace (snd (run_notebook env_ok 0))) = [PObj 11]"
  by (simp_all add: run_ok(2) trace_ok_def results_of_def result_at_def call_at_def)

section \<open>The properties\<close>

text \<open>
  C1. The hyperparameter mapping passed to the training-job descriptor has exactly the keys
  \<open>batch_size\<close>, \<open>epochs\<close>, \<open>learning_rate\<close>, \<open>momentum\<close> and \<open>log_interval\<close>: in every
  run, every call of \<open>MXNet\<close> has a keyword argument \<open>hyperparameters\<close> that is a
  dictionary whose keys are these five, each once.
\<close>

theorem hyperparameter_keys:
  assumes "run_notebook env w = (r, s)"
    and "c \<in> set (calls_of ''MXNet'' [] (trace s))"
  shows "\<exists>d. map_of (kwargs c) ''hyperparameters'' = Some (PDict d) \<and>
             distinct (map fst d) \<and>
             set (map fst d) =
               {''batch_size'', ''epochs'', ''learning_rate'', ''momentum'', ''log_interval''}"
proof -
  from assms(2) obtain ev where ev: "ev \<in> set (trace s)" "call_at ''MXNet'' [] ev = Some c"
    by (auto simp: in_calls_of)
  from estimator_call(3) [OF assms(1) ev]
  have "map_of (kwargs c) ''hyperparameters'' = Some hyperparameters" by auto
  then show ?thesis
    unfolding hyperparameters_items by (intro exI conjI, assumption) auto
qed

theorem hyperparameter_keys_witness:
  "run_notebook env_ok 0 = (Inr (), snd (run_notebook env_ok 0)) \<and>
   estimator_ok \<in> set (calls_of ''MXNet'' [] (trace (snd (run_notebook env_ok 0)))) \<and>
   (\<exists>d. map_of (kwargs estimator_ok) ''hyperparameters'' = Some (PDict d) \<and>
        distinct (map fst d) \<and>
        set (map fst d) =
          {''batch_size'', ''epochs'', ''learning_rate'', ''momentum'', ''log_interval''})"
proof -
  have mem: "estimator_ok \<in> set (calls_of ''MXNet'' [] (trace (snd (run_notebook env_ok 0))))"
    by (simp add: calls_ok)
  from hyperparameter_keys [OF run_ok_pair mem] run_ok_pair mem show ?thesis by blast
qed

text \<open>
  C2. In every run the SDK operations occur in exactly this order: session construction
  and credential acquisition, then dataset fetch, then upload, then construction of the
  training-job descriptor, then job submission, then endpoint deployment. The steps of the
  calls of a run, in the order the calls were made, are an initial part of the list below
  (two calls acquire, two fetch); they are the whole list when the run ends without an
  exception; and every call of the run is one of these steps.
\<close>

theorem flow_order:
  assumes "run_notebook env w = (r, s)"
  shows "prefix (phases (trace s))
           [Acquire, Acquire, Fetch, Fetch, Upload, Construct, Fit, Deploy] \<and>
         (r = Inr () \<longrightarrow>
            phases (trace s) = [Acquire, Acquire, Fetch, Fetch, Upload, Construct, Fit, Deploy]) \<and>
         (\<forall>ev\<in>set (trace s). callee (op ev) \<noteq> None \<longrightarrow> phase_of (op ev) \<noteq> None)"
proof (intro conjI impI ballI)
  let ?at = "\<lambda>l::nat.
     if l = 19 \<or> l = 21 then Some Acquire
     else if l = 39 \<or> l = 40 then Some Fetch
     else if l = 51 then Some Upload
     else if l = 69 then Some Construct
     else if l = 97 then Some Fit
     else if l = 115 then Some Deploy
     else None"
  have static: "phase_of c = ?at (iline i)"
    if "i \<in> set notebook_instrs" "build i g = Inr c" for i g c
    using that by (rule notebook_phase)
  have steps: "List.map_filter ?at [11, 13, 14, 15, 16, 17, 19, 21, 39, 40, 51, 69, 97, 115] =
      [Acquire, Acquire, Fetch, Fetch, Upload, Construct, Fit, Deploy]"
    by simp
  show "prefix (phases (trace s))
          [Acquire, Acquire, Fetch, Fetch, Upload, Construct, Fit, Deploy]"
    using notebook_static(1) [of env w r s phase_of ?at, OF assms static]
    unfolding steps phases_def .
  show "phases (trace s) = [Acquire, Acquire, Fetch, Fetch, Upload, Construct, Fit, Deploy]"
    if "r = Inr ()"
    using notebook_static(2) [of env w r s phase_of ?at, OF assms static that]
    unfolding steps phases_def .
  fix ev assume ev: "ev \<in> set (trace s)" "callee (op ev) \<noteq> None"
  from assms ev(1) obtain i g where i: "i \<in> set notebook_instrs" "iline i = line ev"
    "build i g = Inr (op ev)"
    by (rule notebook_event_source)
  from ev(2) notebook_callee [OF i(1,3)] notebook_phase [OF i(1,3)]
  show "phase_of (op ev) \<noteq> None" by (auto split: if_splits)
qed

theorem flow_order_witness:
  "run_notebook env_ok 0 = (Inr (), snd (run_notebook env_ok 0)) \<and>
   phases (trace (snd (run_notebook env_ok 0))) =
     [Acquire, Acquire, Fetch, Fetch, Upload, Construct, Fit, Deploy] \<and>
   last trace_ok \<in> set (trace (snd (run_notebook env_ok 0))) \<and>
   callee (op (last trace_ok)) \<noteq> None \<and>
   phase_of (op (last trace_ok)) \<noteq> None"
proof -
  have mem: "last trace_ok \<in> set (trace (snd (run_notebook env_ok 0)))"
    by (simp add: run_ok(2)) (simp add: trace_ok_def)
  have call: "callee (op (last trace_ok)) \<noteq> None" by (simp add: trace_ok_def)
  from flow_order [OF run_ok_pair] run_ok_pair mem call show ?thesis by blast
qed

text \<open>
  C3. The notebook's code is straight-line, so that in every run each call is executed at
  most once and a call that fails is never attempted again: the lines of the operations of
  a run, in the order they were performed, are an initial part of the list of the lines of
  the source, which is strictly increasing; no operation but the last one of a run has
  raised; and a run that ends without an exception has performed every line once.
\<close>

theorem straight_line:
  assumes "run_notebook env w = (r, s)"
  shows "prefix (map line (trace s)) [11, 13, 14, 15, 16, 17, 19, 21, 39, 40, 51, 69, 97, 115] \<and>
         sorted_wrt (<) (map line (trace s)) \<and>
         list_all returned (butlast (trace s)) \<and>
         (r = Inr () \<longrightarrow>
            map line (trace s) = [11, 13, 14, 15, 16, 17, 19, 21, 39, 40, 51, 69, 97, 115])"
proof (intro conjI impI)
  let ?lines = "[11, 13, 14, 15, 16, 17, 19, 21, 39, 40, 51, 69, 97, 115] :: nat list"
  have lines: "map line (trace s) = take (length (trace s)) ?lines"
    using assms by (rule notebook_trace_lines)
  have fin: "final notebook_instrs r s" using assms by (rule notebook_final(1))
  show "prefix (map line (trace s)) ?lines"
    unfolding lines by (rule take_is_prefix)
  show "sorted_wrt (<) (map line (trace s))"
    unfolding lines by (rule sorted_wrt_take) simp
  show "list_all returned (butlast (trace s))"
    using fin by (simp add: final_def)
  assume "r = Inr ()"
  with fin have "length (trace s) = length notebook_instrs" by (simp add: final_def)
  also have "\<dots> = length ?lines" unfolding notebook_lines [symmetric] by simp
  finally show "map line (trace s) = ?lines" by (simp add: lines)
qed

theorem straight_line_witness:
  "run_notebook env_ok 0 = (Inr (), snd (run_notebook env_ok 0)) \<and>
   map line (trace (snd (run_notebook env_ok 0))) =
     [11, 13, 14, 15, 16, 17, 19, 21, 39, 40, 51, 69, 97, 115]"
  using straight_line [OF run_ok_pair] run_ok_pair by blast

text \<open>
  C4. The notebook defines no exception handler: any exception a call raises propagates
  unchanged out of the notebook, and no subsequent cell executes after a raising cell. In
  every run, an operation that raised \<open>e\<close> is the last operation of the run, the run ends
  with \<open>e\<close> itself, and the last cell that was run is the cell of that operation's line;
  a run that ends with an exception ends with the exception its last operation raised (the
  notebook raises none of its own); the cells that were run are an initial part of the
  cells in their order.
\<close>

theorem exceptions_propagate:
  assumes "run_notebook env w = (r, s)"
  shows "(\<forall>ev\<in>set (trace s). \<forall>e. outcome ev = Inl e \<longrightarrow>
            r = Inl (Raised e) \<and> ev = last (trace s) \<and>
            cell_of_line (line ev) = Some (last (executed s))) \<and>
         (\<forall>x. r = Inl x \<longrightarrow>
            (\<exists>e. x = Raised e \<and> trace s \<noteq> [] \<and> outcome (last (trace s)) = Inl e)) \<and>
         prefix (executed s) [0, 2, 3, 5, 7, 9]"
proof (intro conjI ballI allI impI)
  have fin: "final notebook_instrs r s" using assms by (rule notebook_final(1))
  have prog: "run_prog notebook_cells env (fresh_kernel w) = (r, s)"
    using assms by (simp add: run_notebook_prog)
  have raised: "\<exists>e. x = Raised e \<and> trace s \<noteq> [] \<and> outcome (last (trace s)) = Inl e"
    if "r = Inl x" for x
  proof (cases x)
    case (NameError y)
    with that notebook_final(2) [OF assms] show ?thesis by simp
  next
    case (Raised e)
    with that fin show ?thesis by (simp add: final_def)
  qed
  show "\<exists>e. x = Raised e \<and> trace s \<noteq> [] \<and> outcome (last (trace s)) = Inl e"
    if "r = Inl x" for x
    using that by (rule raised)
  show "prefix (executed s) [0, 2, 3, 5, 7, 9]"
    using run_prog_executed [OF prog] by (simp add: fresh_kernel_def notebook_cells_def)
  fix ev e assume ev: "ev \<in> set (trace s)" "outcome ev = Inl e"
  then have ne: "trace s \<noteq> []" by auto
  have "ev \<notin> set (butlast (trace s))"
  proof
    assume "ev \<in> set (butlast (trace s))"
    moreover have "list_all returned (butlast (trace s))" using fin by (simp add: final_def)
    ultimately have "returned ev" by (simp add: list_all_iff)
    with ev(2) show False by (simp add: returned_def)
  qed
  moreover have "ev \<in> set (butlast (trace s)) \<or> ev = last (trace s)"
    using ev(1) by (rule in_butlast_or_last)
  ultimately show last: "ev = last (trace s)" by simp
  have "r \<noteq> Inr ()"
  proof
    assume "r = Inr ()"
    with fin have "list_all returned (trace s)" by (simp add: final_def)
    with ev(1) have "returned ev" by (simp add: list_all_iff)
    with ev(2) show False by (simp add: returned_def)
  qed
  then obtain x where x: "r = Inl x" by (cases r) auto
  from raised [OF this] obtain e' where e': "x = Raised e'" "outcome (last (trace s)) = Inl e'"
    by auto
  from e'(2) last ev(2) have "e' = e" by simp
  with x e'(1) show r: "r = Inl (Raised e)" by simp
  from prog r have "run_prog notebook_cells env (fresh_kernel w) = (Inl (Raised e), s)"
    by simp
  from run_prog_raised [OF this] obtain n "is"
    where cell: "(n, is) \<in> set notebook_cells" "last (executed s) = n"
      "line (last (trace s)) \<in> iline ` set is"
    by blast
  from notebook_cell_lines cell(1)
  have "list_all (\<lambda>i. cell_of_line (iline i) = Some n) is"
    unfolding list_all_iff by blast
  then have "\<forall>i\<in>set is. cell_of_line (iline i) = Some n"
    by (simp add: list_all_iff)
  with cell(3) have "cell_of_line (line (last (trace s))) = Some n" by auto
  with cell(2) last show "cell_of_line (line ev) = Some (last (executed s))" by simp
qed

theorem exceptions_propagate_witness:
  "run_notebook env_quota 0 =
     (Inl (Raised ''ResourceLimitExceeded''), snd (run_notebook env_quota 0)) \<and>
   fit_quota \<in> set (trace (snd (run_notebook env_quota 0))) \<and>
   outcome fit_quota = Inl ''ResourceLimitExceeded'' \<and>
   fit_quota = last (trace (snd (run_notebook env_quota 0))) \<and>
   cell_of_line (line fit_quota) = Some (last (executed (snd (run_notebook env_quota 0)))) \<and>
   (\<exists>e. Raised ''ResourceLimitExceeded'' = Raised e \<and>
        trace (snd (run_notebook env_quota 0)) \<noteq> [] \<and>
        outcome (last (trace (snd (run_notebook env_quota 0)))) = Inl e)"
proof -
  let ?s = "snd (run_notebook env_quota 0)"
  have mem: "fit_quota \<in> set (trace ?s)"
    by (simp add: run_quota(2) trace_quota_def fit_quota_def)
  have out: "outcome fit_quota = Inl ''ResourceLimitExceeded''"
    by (simp add: fit_quota_def)
  note all = exceptions_propagate [OF run_quota_pair]
  from all have "\<forall>ev\<in>set (trace ?s). \<forall>e. outcome ev = Inl e \<longrightarrow>
      Inl (Raised ''ResourceLimitExceeded'') = (Inl (Raised e) :: string exn + unit) \<and>
      ev = last (trace ?s) \<and> cell_of_line (line ev) = Some (last (executed ?s))"
    by (rule conjunct1)
  from this [rule_format, OF mem out]
  have one: "fit_quota = last (trace ?s)"
    "cell_of_line (line fit_quota) = Some (last (executed ?s))"
    by simp_all
  from all have "\<forall>x. Inl (Raised ''ResourceLimitExceeded'') = (Inl x :: string exn + unit) \<longrightarrow>
      (\<exists>e. x = Raised e \<and> trace ?s \<noteq> [] \<and> outcome (last (trace ?s)) = Inl e)"
    by (rule conjunct2 [THEN conjunct1])
  from this [rule_format, OF refl]
  have two: "\<exists>e. Raised ''ResourceLimitExceeded'' = Raised e \<and> trace ?s \<noteq> [] \<and>
      outcome (last (trace ?s)) = Inl e" .
  from run_quota_pair mem out one two show ?thesis by (intro conjI)
qed

text \<open>
  C5. The dataset upload is a single call that passes the local directory path \<open>data\<close> and
  the object-storage key prefix \<open>data/DEMO-mnist\<close> to the session's upload operation, and
  the resulting storage location is bound to the name used later as the training input: in
  every run \<open>upload_data\<close> is called at most once, on the object that \<open>sagemaker.Session()\<close>
  returned, with exactly the keyword arguments \<open>path='data'\<close> and
  \<open>key_prefix='data/DEMO-mnist'\<close>; the value it returns is what \<open>inputs\<close> is bound to when
  the run ends, and is the one argument of every call of \<open>model.fit\<close>.
\<close>

theorem dataset_upload:
  assumes "run_notebook env w = (r, s)"
  shows "length (calls_of ''sagemaker_session'' [''upload_data''] (trace s)) \<le> 1 \<and>
         (\<forall>c\<in>set (calls_of ''sagemaker_session'' [''upload_data''] (trace s)).
            args c = [] \<and>
            kwargs c = [(''path'', PStr ''data''), (''key_prefix'', PStr ''data/DEMO-mnist'')] \<and>
            results_of ''sagemaker'' [''Session''] (trace s) = [base c]) \<and>
         (\<forall>v\<in>set (results_of ''sagemaker_session'' [''upload_data''] (trace s)).
            globals s ''inputs'' = Some v \<and>
            (\<forall>f\<in>set (calls_of ''model'' [''fit''] (trace s)). args f = [v]))"
proof (intro conjI ballI)
  show "length (calls_of ''sagemaker_session'' [''upload_data''] (trace s)) \<le> 1"
  proof (rule at_most_one_call [OF assms])
    fix ev
    assume ev: "ev \<in> set (trace s)" "call_at ''sagemaker_session'' [''upload_data''] ev \<noteq> None"
    show "line ev = 51" using call_line_iff(2) [OF assms ev(1)] ev(2) by simp
  qed
next
  fix c assume "c \<in> set (calls_of ''sagemaker_session'' [''upload_data''] (trace s))"
  then obtain ev where ev: "ev \<in> set (trace s)"
    "call_at ''sagemaker_session'' [''upload_data''] ev = Some c"
    by (auto simp: in_calls_of)
  from upload_call [OF assms ev]
  show "args c = []"
    and "kwargs c = [(''path'', PStr ''data''), (''key_prefix'', PStr ''data/DEMO-mnist'')]"
    and "results_of ''sagemaker'' [''Session''] (trace s) = [base c]"
    by simp_all
next
  fix v assume "v \<in> set (results_of ''sagemaker_session'' [''upload_data''] (trace s))"
  then obtain u where u: "u \<in> set (trace s)"
    "call_at ''sagemaker_session'' [''upload_data''] u \<noteq> None" "outcome u = Inr v"
    by (auto simp: in_results_of result_at_Some)
  have at: "line u = 51" using call_line_iff(2) [OF assms u(1)] u(2) by simp
  have "globals s = namespace notebook_instrs (trace s)"
    using notebook_final(1) [OF assms] by (simp add: final_def)
  moreover have "namespace notebook_instrs (trace s) ''inputs'' = Some v"
  proof (rule namespace_bound [OF notebook_distinct_lines [OF assms] u(1,3)])
    show "name_bound_at notebook_instrs (line u) = Some ''inputs''"
      by (simp add: name_bound_at_notebook at)
    show "line z = line u"
      if "z \<in> set (trace s)" "name_bound_at notebook_instrs (line z) = Some ''inputs''" for z
      using that(2) by (simp add: name_bound_at_notebook at)
  qed
  ultimately show "globals s ''inputs'' = Some v" by simp
  have only: "results_of ''sagemaker_session'' [''upload_data''] (trace s) = [v]"
    using assms u(1,3,2)
  proof (rule result_of_line)
    show "line z = line u"
      if "z \<in> set (trace s)" "call_at ''sagemaker_session'' [''upload_data''] z \<noteq> None" for z
      using call_line_iff(2) [OF assms that(1)] that(2) at by simp
  qed
  fix f assume "f \<in> set (calls_of ''model'' [''fit''] (trace s))"
  then obtain ev where ev: "ev \<in> set (trace s)" "call_at ''model'' [''fit''] ev = Some f"
    by (auto simp: in_calls_of)
  from fit_call(2) [OF assms ev] only show "args f = [v]" by auto
qed

theorem dataset_upload_witness:
  "run_notebook env_ok 0 = (Inr (), snd (run_notebook env_ok 0)) \<and>
   upload_ok \<in> set (calls_of ''sagemaker_session'' [''upload_data'']
                      (trace (snd (run_notebook env_ok 0)))) \<and>
   args upload_ok = [] \<and>
   kwargs upload_ok = [(''path'', PStr ''data''), (''key_prefix'', PStr ''data/DEMO-mnist'')] \<and>
   PObj 10 \<in> set (results_of ''sagemaker_session'' [''upload_data'']
                    (trace (snd (run_notebook env_ok 0)))) \<and>
   globals (snd (run_notebook env_ok 0)) ''inputs'' = Some (PObj 10) \<and>
   fit_ok \<in> set (calls_of ''model'' [''fit''] (trace (snd (run_notebook env_ok 0)))) \<and>
   args fit_ok = [PObj 10]"
proof -
  have mem: "upload_ok \<in> set (calls_of ''sagemaker_session'' [''upload_data'']
                                (trace (snd (run_notebook env_ok 0))))"
    "PObj 10 \<in> set (results_of ''sagemaker_session'' [''upload_data'']
                     (trace (snd (run_notebook env_ok 0))))"
    "fit_ok \<in> set (calls_of ''model'' [''fit''] (trace (snd (run_notebook env_ok 0))))"
    by (simp_all add: calls_ok results_ok)
  from dataset_upload [OF run_ok_pair] run_ok_pair mem show ?thesis by blast
qed

text \<open>
  C6. The entry-point script name supplied to the training-job descriptor is exactly
  \<open>entry.py\<close>, passed as the first argument of the estimator constructor: in every run,
  every call of \<open>MXNet\<close> has the one positional argument \<open>entry.py\<close>, and no keyword
  argument \<open>entry_point\<close> that could name another script.
\<close>

theorem entry_point_script:
  assumes "run_notebook env w = (r, s)"
    and "c \<in> set (calls_of ''MXNet'' [] (trace s))"
  shows "args c = [PStr ''entry.py''] \<and> map_of (kwargs c) ''entry_point'' = None"
proof -
  from assms(2) obtain ev where ev: "ev \<in> set (trace s)" "call_at ''MXNet'' [] ev = Some c"
    by (auto simp: in_calls_of)
  from estimator_call(2,3) [OF assms(1) ev] show ?thesis by auto
qed

theorem entry_point_script_witness:
  "run_notebook env_ok 0 = (Inr (), snd (run_notebook env_ok 0)) \<and>
   estimator_ok \<in> set (calls_of ''MXNet'' [] (trace (snd (run_notebook env_ok 0)))) \<and>
   args estimator_ok = [PStr ''entry.py''] \<and>
   map_of (kwargs estimator_ok) ''entry_point'' = None"
proof -
  have mem: "estimator_ok \<in> set (calls_of ''MXNet'' [] (trace (snd (run_notebook env_ok 0))))"
    by (simp add: calls_ok)
  from entry_point_script [OF run_ok_pair mem] run_ok_pair mem show ?thesis by blast
qed

text \<open>
  C7. The dataset fetch caches the training split (\<open>train=True\<close>) at the local path
  \<open>./data/train\<close> and the test split (\<open>train=False\<close>) at \<open>./data/test\<close>, and these are
  the only local dataset-caching paths the notebook uses: in every run, the arguments of
  the calls of \<open>gluon.data.vision.MNIST\<close>, in the order the calls were made, are an initial
  part of the two pairs below, and both pairs when the run ends without an exception. No
  other call of a run fetches a dataset: every call of every run is either a call of
  \<open>gluon.data.vision.MNIST\<close> with one of these two pairs of arguments, or a call of one
  of the six other callees the notebook has, \<open>sagemaker.Session\<close>,
  \<open>get_execution_role\<close>, \<open>sagemaker_session.upload_data\<close>, \<open>MXNet\<close>, \<open>model.fit\<close>
  and \<open>model.deploy\<close>, none of which is a call into the dataset loader \<open>gluon\<close>.
\<close>

theorem dataset_cache_paths:
  assumes "run_notebook env w = (r, s)"
  shows "prefix
           (map (\<lambda>c. (args c, kwargs c))
              (calls_of ''gluon'' [''data'', ''vision'', ''MNIST''] (trace s)))
           [([PStr ''./data/train''], [(''train'', PBool True)]),
            ([PStr ''./data/test''], [(''train'', PBool False)])] \<and>
         (r = Inr () \<longrightarrow>
            map (\<lambda>c. (args c, kwargs c))
              (calls_of ''gluon'' [''data'', ''vision'', ''MNIST''] (trace s)) =
            [([PStr ''./data/train''], [(''train'', PBool True)]),
             ([PStr ''./data/test''], [(''train'', PBool False)])]) \<and>
         (\<forall>ev\<in>set (trace s). \<forall>c. op ev = Call c \<longrightarrow>
            (target c = ''gluon'' \<and> attrs c = [''data'', ''vision'', ''MNIST''] \<and>
             (args c, kwargs c) \<in>
               {([PStr ''./data/train''], [(''train'', PBool True)]),
                ([PStr ''./data/test''], [(''train'', PBool False)])}) \<or>
            (target c \<noteq> ''gluon'' \<and>
             (target c, attrs c) \<in>
               {(''sagemaker'', [''Session'']), (''get_execution_role'', []),
                (''sagemaker_session'', [''upload_data'']), (''MXNet'', []),
                (''model'', [''fit'']), (''model'', [''deploy''])}))"
proof (intro conjI impI ballI allI)
  let ?view = "\<lambda>c. case c of
       Call c' \<Rightarrow>
         if target c' = ''gluon'' \<and> attrs c' = [''data'', ''vision'', ''MNIST'']
         then Some (args c', kwargs c') else None
     | _ \<Rightarrow> None"
  let ?at = "\<lambda>l::nat.
     if l = 39 then Some ([PStr ''./data/train''], [(''train'', PBool True)])
     else if l = 40 then Some ([PStr ''./data/test''], [(''train'', PBool False)])
     else None"
  have static: "?view c = ?at (iline i)"
    if "i \<in> set notebook_instrs" "build i g = Inr c" for i g c
    using that by (auto simp: notebook_instrs_defs read1_def read2_def split: option.splits)
  have fetched: "List.map_filter ?at [11, 13, 14, 15, 16, 17, 19, 21, 39, 40, 51, 69, 97, 115] =
      [([PStr ''./data/train''], [(''train'', PBool True)]),
       ([PStr ''./data/test''], [(''train'', PBool False)])]"
    by simp
  have view: "map (\<lambda>c. (args c, kwargs c))
        (calls_of ''gluon'' [''data'', ''vision'', ''MNIST''] (trace s)) =
      List.map_filter (\<lambda>ev. ?view (op ev)) (trace s)"
    unfolding calls_of_def map_map_filter
    by (rule arg_cong [of _ _ "\<lambda>h. List.map_filter h (trace s)"])
      (auto simp: call_at_def fun_eq_iff split: op.splits)
  show "prefix
          (map (\<lambda>c. (args c, kwargs c))
             (calls_of ''gluon'' [''data'', ''vision'', ''MNIST''] (trace s)))
          [([PStr ''./data/train''], [(''train'', PBool True)]),
           ([PStr ''./data/test''], [(''train'', PBool False)])]"
    using notebook_static(1) [of env w r s ?view ?at, OF assms static]
    unfolding fetched view .
  show "map (\<lambda>c. (args c, kwargs c))
          (calls_of ''gluon'' [''data'', ''vision'', ''MNIST''] (trace s)) =
        [([PStr ''./data/train''], [(''train'', PBool True)]),
         ([PStr ''./data/test''], [(''train'', PBool False)])]"
    if "r = Inr ()"
    using notebook_static(2) [of env w r s ?view ?at, OF assms static that]
    unfolding fetched view .
  fix ev c assume ev: "ev \<in> set (trace s)" "op ev = Call c"
  from assms ev(1) obtain i g where i: "i \<in> set notebook_instrs" "iline i = line ev"
    "build i g = Inr (op ev)"
    by (rule notebook_event_source)
  from i(3) ev(2) have built: "build i g = Inr (Call c)" by simp
  from notebook_callee [OF i(1) built]
  have who: "Some (target c, attrs c) =
     (if iline i = 19 then Some (''sagemaker'', [''Session''])
      else if iline i = 21 then Some (''get_execution_role'', [])
      else if iline i = 39 \<or> iline i = 40 then Some (''gluon'', [''data'', ''vision'', ''MNIST''])
      else if iline i = 51 then Some (''sagemaker_session'', [''upload_data''])
      else if iline i = 69 then Some (''MXNet'', [])
      else if iline i = 97 then Some (''model'', [''fit''])
      else if iline i = 115 then Some (''model'', [''deploy''])
      else None)"
    by simp
  from static [OF i(1) built] have what: "?view (Call c) = ?at (iline i)" .
  show "(target c = ''gluon'' \<and> attrs c = [''data'', ''vision'', ''MNIST''] \<and>
         (args c, kwargs c) \<in>
           {([PStr ''./data/train''], [(''train'', PBool True)]),
            ([PStr ''./data/test''], [(''train'', PBool False)])}) \<or>
        (target c \<noteq> ''gluon'' \<and>
         (target c, attrs c) \<in>
           {(''sagemaker'', [''Session'']), (''get_execution_role'', []),
            (''sagemaker_session'', [''upload_data'']), (''MXNet'', []),
            (''model'', [''fit'']), (''model'', [''deploy''])})"
  proof (cases "iline i = 39 \<or> iline i = 40")
    case True
    with who have "target c = ''gluon''" "attrs c = [''data'', ''vision'', ''MNIST'']"
      by (auto split: if_splits)
    moreover from this what True
    have "(args c, kwargs c) \<in>
           {([PStr ''./data/train''], [(''train'', PBool True)]),
            ([PStr ''./data/test''], [(''train'', PBool False)])}"
      by (auto split: if_splits)
    ultimately show ?thesis by simp
  next
    case False
    with who show ?thesis by (auto split: if_splits)
  qed
qed

theorem dataset_cache_paths_witness:
  "run_notebook env_ok 0 = (Inr (), snd (run_notebook env_ok 0)) \<and>
   map (\<lambda>c. (args c, kwargs c))
     (calls_of ''gluon'' [''data'', ''vision'', ''MNIST''] (trace (snd (run_notebook env_ok 0)))) =
   [([PStr ''./data/train''], [(''train'', PBool True)]),
    ([PStr ''./data/test''], [(''train'', PBool False)])] \<and>
   fetch_train_event \<in> set (trace (snd (run_notebook env_ok 0))) \<and>
   op fetch_train_event = Call fetch_train_ok \<and>
   target fetch_train_ok = ''gluon'' \<and>
   attrs fetch_train_ok = [''data'', ''vision'', ''MNIST''] \<and>
   (args fetch_train_ok, kwargs fetch_train_ok) \<in>
     {([PStr ''./data/train''], [(''train'', PBool True)]),
      ([PStr ''./data/test''], [(''train'', PBool False)])}"
proof -
  let ?s = "snd (run_notebook env_ok 0)"
  have mem: "fetch_train_event \<in> set (trace ?s)"
    by (simp add: run_ok(2) trace_ok_def fetch_train_event_def fetch_train_ok_def)
  have call: "op fetch_train_event = Call fetch_train_ok"
    by (simp add: fetch_train_event_def)
  have loader: "target fetch_train_ok = ''gluon''"
    by (simp add: fetch_train_ok_def)
  note all = dataset_cache_paths [OF run_ok_pair]
  from all have fetches: "map (\<lambda>c. (args c, kwargs c))
      (calls_of ''gluon'' [''data'', ''vision'', ''MNIST''] (trace ?s)) =
    [([PStr ''./data/train''], [(''train'', PBool True)]),
     ([PStr ''./data/test''], [(''train'', PBool False)])]"
    by blast
  from all have "\<forall>ev\<in>set (trace ?s). \<forall>c. op ev = Call c \<longrightarrow>
      (target c = ''gluon'' \<and> attrs c = [''data'', ''vision'', ''MNIST''] \<and>
       (args c, kwargs c) \<in>
         {([PStr ''./data/train''], [(''train'', PBool True)]),
          ([PStr ''./data/test''], [(''train'', PBool False)])}) \<or>
      (target c \<noteq> ''gluon'' \<and>
       (target c, attrs c) \<in>
         {(''sagemaker'', [''Session'']), (''get_execution_role'', []),
          (''sagemaker_session'', [''upload_data'']), (''MXNet'', []),
          (''model'', [''fit'']), (''model'', [''deploy''])})"
    by (rule conjunct2 [THEN conjunct2])
  from this [rule_format, OF mem call] loader
  have only: "attrs fetch_train_ok = [''data'', ''vision'', ''MNIST''] \<and>
      (args fetch_train_ok, kwargs fetch_train_ok) \<in>
        {([PStr ''./data/train''], [(''train'', PBool True)]),
         ([PStr ''./data/test''], [(''train'', PBool False)])}"
    by blast
  from run_ok_pair fetches mem call loader only show ?thesis by (intro conjI) simp_all
qed

text \<open>
  C8. The hyperparameter configuration is a flat mapping whose values are all scalars
  (integers or floating-point numbers): in every run, every value of the dictionary passed
  as \<open>hyperparameters\<close> to \<open>MXNet\<close> is an integer or a float, none a dictionary, a string
  or an object.
\<close>

theorem hyperparameter_values_scalar:
  assumes "run_notebook env w = (r, s)"
    and "c \<in> set (calls_of ''MXNet'' [] (trace s))"
  shows "\<exists>d. map_of (kwargs c) ''hyperparameters'' = Some (PDict d) \<and>
             list_all is_scalar (map snd d)"
proof -
  from assms(2) obtain ev where ev: "ev \<in> set (trace s)" "call_at ''MXNet'' [] ev = Some c"
    by (auto simp: in_calls_of)
  from estimator_call(3) [OF assms(1) ev]
  have "map_of (kwargs c) ''hyperparameters'' = Some hyperparameters" by auto
  then show ?thesis
    unfolding hyperparameters_items by (intro exI conjI, assumption) simp
qed

theorem hyperparameter_values_scalar_witness:
  "run_notebook env_ok 0 = (Inr (), snd (run_notebook env_ok 0)) \<and>
   estimator_ok \<in> set (calls_of ''MXNet'' [] (trace (snd (run_notebook env_ok 0)))) \<and>
   (\<exists>d. map_of (kwargs estimator_ok) ''hyperparameters'' = Some (PDict d) \<and>
        list_all is_scalar (map snd d))"
proof -
  have mem: "estimator_ok \<in> set (calls_of ''MXNet'' [] (trace (snd (run_notebook env_ok 0))))"
    by (simp add: calls_ok)
  from hyperparameter_values_scalar [OF run_ok_pair mem] run_ok_pair mem show ?thesis by blast
qed

text \<open>
  C9. The argument passed to the job-submission call is exactly the value returned by the
  upload call, and the deployment call is invoked on exactly the same estimator object that
  the job was submitted on: in every run, every call of \<open>model.fit\<close> has no keyword
  argument and as its arguments the one value that \<open>upload_data\<close> returned, and is made on
  the one object that \<open>MXNet\<close> returned; every call of \<open>model.deploy\<close> is made on that
  same object, after a call of \<open>model.fit\<close> on it. No second upload and no second
  estimator exist in the run.
\<close>

theorem trained_model_deployed:
  assumes "run_notebook env w = (r, s)"
  shows "(\<forall>c\<in>set (calls_of ''model'' [''fit''] (trace s)).
            kwargs c = [] \<and> length (args c) = 1 \<and>
            args c = results_of ''sagemaker_session'' [''upload_data''] (trace s) \<and>
            results_of ''MXNet'' [] (trace s) = [base c]) \<and>
         (\<forall>d\<in>set (calls_of ''model'' [''deploy''] (trace s)).
            results_of ''MXNet'' [] (trace s) = [base d] \<and>
            map base (calls_of ''model'' [''fit''] (trace s)) = [base d])"
proof (intro conjI ballI)
  fix c assume "c \<in> set (calls_of ''model'' [''fit''] (trace s))"
  then obtain ev where ev: "ev \<in> set (trace s)" "call_at ''model'' [''fit''] ev = Some c"
    by (auto simp: in_calls_of)
  from fit_call [OF assms ev]
  show "kwargs c = []" and "length (args c) = 1"
    and "args c = results_of ''sagemaker_session'' [''upload_data''] (trace s)"
    and "results_of ''MXNet'' [] (trace s) = [base c]"
    by auto
next
  fix d assume "d \<in> set (calls_of ''model'' [''deploy''] (trace s))"
  then obtain ev where ev: "ev \<in> set (trace s)" "call_at ''model'' [''deploy''] ev = Some d"
    by (auto simp: in_calls_of)
  show est: "results_of ''MXNet'' [] (trace s) = [base d]"
    using assms ev by (rule deploy_call(3))
  have "line ev = 115" using call_line_iff(5) [OF assms ev(1)] ev(2) by simp
  with assms ev(1) obtain u where u: "u \<in> set (trace s)" "line u = 97"
    by (rule fit_before_deploy)
  then obtain c where c: "call_at ''model'' [''fit''] u = Some c"
    using call_line_iff(4) [OF assms u(1)] by auto
  have "calls_of ''model'' [''fit''] (trace s) = [c]"
    using assms u(1) c
  proof (rule call_of_line)
    show "line z = line u"
      if "z \<in> set (trace s)" "call_at ''model'' [''fit''] z \<noteq> None" for z
      using call_line_iff(4) [OF assms that(1)] that(2) u(2) by simp
  qed
  moreover have "results_of ''MXNet'' [] (trace s) = [base c]"
    using assms u(1) c by (rule fit_call(3))
  ultimately show "map base (calls_of ''model'' [''fit''] (trace s)) = [base d]"
    using est by simp
qed

theorem trained_model_deployed_witness:
  "run_notebook env_ok 0 = (Inr (), snd (run_notebook env_ok 0)) \<and>
   fit_ok \<in> set (calls_of ''model'' [''fit''] (trace (snd (run_notebook env_ok 0)))) \<and>
   args fit_ok = results_of ''sagemaker_session'' [''upload_data'']
                   (trace (snd (run_notebook env_ok 0))) \<and>
   results_of ''MXNet'' [] (trace (snd (run_notebook env_ok 0))) = [base fit_ok] \<and>
   deploy_ok \<in> set (calls_of ''model'' [''deploy''] (trace (snd (run_notebook env_ok 0)))) \<and>
   results_of ''MXNet'' [] (trace (snd (run_notebook env_ok 0))) = [base deploy_ok] \<and>
   map base (calls_of ''model'' [''fit''] (trace (snd (run_notebook env_ok 0)))) =
     [base deploy_ok]"
proof -
  have mem: "fit_ok \<in> set (calls_of ''model'' [''fit''] (trace (snd (run_notebook env_ok 0))))"
    "deploy_ok \<in> set (calls_of ''model'' [''deploy''] (trace (snd (run_notebook env_ok 0))))"
    by (simp_all add: calls_ok)
  from trained_model_deployed [OF run_ok_pair] run_ok_pair mem show ?thesis by blast
qed

text \<open>
  C10. The training-job descriptor requests exactly one training instance of type
  \<open>ml.c4.xlarge\<close>, and the endpoint deployment requests exactly one serving instance of
  type \<open>ml.m4.xlarge\<close>: in every run, every call of \<open>MXNet\<close> has
  \<open>train_instance_count=1\<close> and \<open>train_instance_type="ml.c4.xlarge"\<close>, every call of
  \<open>model.deploy\<close> has exactly the keyword arguments \<open>initial_instance_count=1\<close> and
  \<open>instance_type='ml.m4.xlarge'\<close>, and each of the two is called at most once.
\<close>

theorem single_instances:
  assumes "run_notebook env w = (r, s)"
  shows "(\<forall>c\<in>set (calls_of ''MXNet'' [] (trace s)).
            map_of (kwargs c) ''train_instance_count'' = Some (PInt 1) \<and>
            map_of (kwargs c) ''train_instance_type'' = Some (PStr ''ml.c4.xlarge'')) \<and>
         (\<forall>d\<in>set (calls_of ''model'' [''deploy''] (trace s)).
            args d = [] \<and>
            kwargs d = [(''initial_instance_count'', PInt 1),
                        (''instance_type'', PStr ''ml.m4.xlarge'')]) \<and>
         length (calls_of ''MXNet'' [] (trace s)) \<le> 1 \<and>
         length (calls_of ''model'' [''deploy''] (trace s)) \<le> 1"
proof (intro conjI ballI)
  fix c assume "c \<in> set (calls_of ''MXNet'' [] (trace s))"
  then obtain ev where ev: "ev \<in> set (trace s)" "call_at ''MXNet'' [] ev = Some c"
    by (auto simp: in_calls_of)
  from estimator_call(3) [OF assms ev]
  show "map_of (kwargs c) ''train_instance_count'' = Some (PInt 1)"
    and "map_of (kwargs c) ''train_instance_type'' = Some (PStr ''ml.c4.xlarge'')"
    by auto
next
  fix d assume "d \<in> set (calls_of ''model'' [''deploy''] (trace s))"
  then obtain ev where ev: "ev \<in> set (trace s)" "call_at ''model'' [''deploy''] ev = Some d"
    by (auto simp: in_calls_of)
  from deploy_call(1,2) [OF assms ev]
  show "args d = []"
    and "kwargs d = [(''initial_instance_count'', PInt 1),
                     (''instance_type'', PStr ''ml.m4.xlarge'')]"
    by simp_all
next
  show "length (calls_of ''MXNet'' [] (trace s)) \<le> 1"
  proof (rule at_most_one_call [OF assms])
    fix ev assume ev: "ev \<in> set (trace s)" "call_at ''MXNet'' [] ev \<noteq> None"
    show "line ev = 69" using call_line_iff(3) [OF assms ev(1)] ev(2) by simp
  qed
  show "length (calls_of ''model'' [''deploy''] (trace s)) \<le> 1"
  proof (rule at_most_one_call [OF assms])
    fix ev assume ev: "ev \<in> set (trace s)" "call_at ''model'' [''deploy''] ev \<noteq> None"
    show "line ev = 115" using call_line_iff(5) [OF assms ev(1)] ev(2) by simp
  qed
qed

theorem single_instances_witness:
  "run_notebook env_ok 0 = (Inr (), snd (run_notebook env_ok 0)) \<and>
   estimator_ok \<in> set (calls_of ''MXNet'' [] (trace (snd (run_notebook env_ok 0)))) \<and>
   map_of (kwargs estimator_ok) ''train_instance_count'' = Some (PInt 1) \<and>
   map_of (kwargs estimator_ok) ''train_instance_type'' = Some (PStr ''ml.c4.xlarge'') \<and>
   deploy_ok \<in> set (calls_of ''model'' [''deploy''] (trace (snd (run_notebook env_ok 0)))) \<and>
   args deploy_ok = [] \<and>
   kwargs deploy_ok = [(''initial_instance_count'', PInt 1),
                       (''instance_type'', PStr ''ml.m4.xlarge'')]"
proof -
  have mem: "estimator_ok \<in> set (calls_of ''MXNet'' [] (trace (snd (run_notebook env_ok 0))))"
    "deploy_ok \<in> set (calls_of ''model'' [''deploy''] (trace (snd (run_notebook env_ok 0))))"
    by (simp_all add: calls_ok)
  from single_instances [OF run_ok_pair] run_ok_pair mem show ?thesis by blast
qed

end
